theory Spec2Isabelle
  imports Complex_Main "HOL-Library.Word"
begin

section \<open>Numbers of the host language\<close>

text \<open>
  The face recognition component computes with IEEE 754 double-precision numbers. A
  number is \<open>NaN\<close>, an infinity, or a finite value, held as the real it denotes. Every
  arithmetic operation computes the exact result and rounds it to the nearest double,
  ties to the even significand; a result of magnitude \<open>2 ^ 1024\<close> or more after rounding
  is an infinity. The sign of zero is not modelled: no result of this program depends
  on it. The motion detector computes with bytes and counts, which are integers; its
  one threshold is written over the reals.
\<close>

text \<open>The power of two with an integer exponent.\<close>

definition pow2 :: "int \<Rightarrow> real" where
  "pow2 e = (if 0 \<le> e then 2 ^ nat e else 1 / 2 ^ nat (- e))"

text \<open>
  The binary exponent of a non-zero real \<open>x\<close>: the \<open>e\<close> with \<open>2 ^ e \<le> |x| < 2 ^ (e + 1)\<close>,
  found by halving from above 2 or doubling from below 1.
\<close>

function expUp :: "real \<Rightarrow> int \<Rightarrow> int" where
  "expUp x e = (if 2 \<le> x then expUp (x / 2) (e + 1) else e)"
  by pat_completeness auto
termination
proof (relation "measure (\<lambda>(x, e). nat \<lfloor>x\<rfloor>)")
  show "wf (measure (\<lambda>(x, e). nat \<lfloor>x\<rfloor>))" by simp
next
  fix x :: real and e :: int
  assume "2 \<le> x"
  then have "\<lfloor>x / 2\<rfloor> < \<lfloor>x\<rfloor>" by linarith
  moreover from \<open>2 \<le> x\<close> have "0 < \<lfloor>x\<rfloor>" by linarith
  ultimately show "((x / 2, e + 1), (x, e)) \<in> measure (\<lambda>(x, e). nat \<lfloor>x\<rfloor>)" by simp
qed

declare expUp.simps [simp del]

function expDown :: "real \<Rightarrow> int \<Rightarrow> int" where
  "expDown x e = (if 0 < x \<and> x < 1 then expDown (2 * x) (e - 1) else e)"
  by pat_completeness auto
termination
proof (relation "measure (\<lambda>(x, e). nat \<lceil>1 / x\<rceil>)")
  show "wf (measure (\<lambda>(x, e). nat \<lceil>1 / x\<rceil>))" by simp
next
  fix x :: real and e :: int
  assume a: "0 < x \<and> x < 1"
  define t where "t = 1 / x"
  from a have t: "1 < t" by (simp add: t_def)
  have eq1: "1 / x = t" by (simp add: t_def)
  have eq2: "1 / (2 * x) = t / 2" by (simp add: t_def)
  from t have n: "2 \<le> \<lceil>t\<rceil>" by linarith
  have "t \<le> of_int \<lceil>t\<rceil>" by simp
  then have "t / 2 \<le> of_int \<lceil>t\<rceil> / 2" by simp
  also from n have "\<dots> \<le> of_int (\<lceil>t\<rceil> - 1)" by simp
  finally have "\<lceil>t / 2\<rceil> \<le> \<lceil>t\<rceil> - 1" by (simp only: ceiling_le_iff)
  with n have k: "nat \<lceil>t / 2\<rceil> < nat \<lceil>t\<rceil>" by simp
  show "((2 * x, e - 1), (x, e)) \<in> measure (\<lambda>(x, e). nat \<lceil>1 / x\<rceil>)"
    unfolding in_measure prod.case eq1 eq2 by (rule k)
qed

declare expDown.simps [simp del]

definition exponent :: "real \<Rightarrow> int" where
  "exponent x = (if 1 \<le> \<bar>x\<bar> then expUp \<bar>x\<bar> 0 else expDown \<bar>x\<bar> 0)"

text \<open>The nearest integer, a tie going to the even one.\<close>

definition roundEven :: "real \<Rightarrow> int" where
  "roundEven t =
     (let f = \<lfloor>t\<rfloor>; r = t - of_int f
      in if r < 1 / 2 then f else if 1 / 2 < r then f + 1 else if even f then f else f + 1)"

text \<open>
  Rounding a real to the grid of doubles around it: 53 significant bits, and below
  \<open>2 ^ - 1022\<close> the fixed spacing \<open>2 ^ - 1074\<close> of the subnormal numbers.
\<close>

definition rnd :: "real \<Rightarrow> real" where
  "rnd x =
     (if x = 0 then 0
      else (let e = max (exponent x) (- 1022); q = pow2 (e - 52)
            in q * of_int (roundEven (x / q))))"

datatype jsnum = NaN | PInf | NInf | Fin real

text \<open>The double that an exact result becomes.\<close>

definition fl :: "real \<Rightarrow> jsnum" where
  "fl x =
     (let r = rnd x
      in if pow2 1024 \<le> r then PInf else if r \<le> - pow2 1024 then NInf else Fin r)"

fun jneg :: "jsnum \<Rightarrow> jsnum" where
  "jneg (Fin a) = Fin (- a)"
| "jneg PInf = NInf"
| "jneg NInf = PInf"
| "jneg NaN = NaN"

fun jadd :: "jsnum \<Rightarrow> jsnum \<Rightarrow> jsnum" where
  "jadd (Fin a) (Fin b) = fl (a + b)"
| "jadd NaN _ = NaN"
| "jadd _ NaN = NaN"
| "jadd PInf NInf = NaN"
| "jadd NInf PInf = NaN"
| "jadd PInf _ = PInf"
| "jadd _ PInf = PInf"
| "jadd NInf _ = NInf"
| "jadd _ NInf = NInf"

definition jsub :: "jsnum \<Rightarrow> jsnum \<Rightarrow> jsnum" where
  "jsub a b = jadd a (jneg b)"

text \<open>The sign of a number that is not \<open>NaN\<close>: true for a negative one.\<close>

fun negative :: "jsnum \<Rightarrow> bool" where
  "negative (Fin a) = (a < 0)"
| "negative NInf = True"
| "negative _ = False"

fun jmul :: "jsnum \<Rightarrow> jsnum \<Rightarrow> jsnum" where
  "jmul (Fin a) (Fin b) = fl (a * b)"
| "jmul NaN _ = NaN"
| "jmul _ NaN = NaN"
| "jmul a b =
     (if a = Fin 0 \<or> b = Fin 0 then NaN
      else if negative a = negative b then PInf else NInf)"

fun jdiv :: "jsnum \<Rightarrow> jsnum \<Rightarrow> jsnum" where
  "jdiv (Fin a) (Fin b) =
     (if b = 0 then (if a = 0 then NaN else if 0 < a then PInf else NInf)
      else fl (a / b))"
| "jdiv NaN _ = NaN"
| "jdiv _ NaN = NaN"
| "jdiv (Fin a) _ = Fin 0"
| "jdiv a (Fin b) = (if negative a = (b < 0) then PInf else NInf)"
| "jdiv _ _ = NaN"

fun jabs :: "jsnum \<Rightarrow> jsnum" where
  "jabs (Fin a) = Fin \<bar>a\<bar>"
| "jabs NaN = NaN"
| "jabs _ = PInf"

fun jsqrt :: "jsnum \<Rightarrow> jsnum" where
  "jsqrt (Fin a) = (if a < 0 then NaN else fl (sqrt a))"
| "jsqrt PInf = PInf"
| "jsqrt _ = NaN"

fun jfloor :: "jsnum \<Rightarrow> jsnum" where
  "jfloor (Fin a) = Fin (of_int \<lfloor>a\<rfloor>)"
| "jfloor a = a"

text \<open>The comparisons \<open><\<close> and \<open>>=\<close>. Every comparison with \<open>NaN\<close> is false.\<close>

fun jless :: "jsnum \<Rightarrow> jsnum \<Rightarrow> bool" where
  "jless (Fin a) (Fin b) = (a < b)"
| "jless NaN _ = False"
| "jless _ NaN = False"
| "jless _ NInf = False"
| "jless PInf _ = False"
| "jless _ _ = True"

fun jge :: "jsnum \<Rightarrow> jsnum \<Rightarrow> bool" where
  "jge (Fin a) (Fin b) = (b \<le> a)"
| "jge NaN _ = False"
| "jge _ NaN = False"
| "jge PInf _ = True"
| "jge _ NInf = True"
| "jge _ _ = False"

text \<open>
  A component of a descriptor is a number, or \<open>null\<close> when it came out of a file that
  had \<open>null\<close> in its place. In arithmetic \<open>null\<close> counts as 0.
\<close>

datatype jsval = Null | Num jsnum

fun toNumber :: "jsval \<Rightarrow> jsnum" where
  "toNumber Null = Fin 0"
| "toNumber (Num x) = x"

section \<open>Signatures and the registry\<close>

text \<open>
  A saved face is an object with the fields \<open>id\<close>, \<open>name\<close>, \<open>savedAt\<close> and
  \<open>descriptor\<close>. Objects built by \<open>saveFace\<close> have all four; objects that come out
  of an imported file may lack any of them, so each field is optional.
\<close>

record face =
  face_id :: "string option"
  name :: "string option"
  savedAt :: "string option"
  descriptor :: "jsval list option"

section \<open>Matching (face-recognition-tensorflow.tsx)\<close>

text \<open>The loop of \<open>calculateSignatureDistance\<close>, from index \<open>i\<close> with the running sum \<open>acc\<close> (\<open>sum\<close> in the source).\<close>

function distLoop :: "jsval list \<Rightarrow> jsval list \<Rightarrow> nat \<Rightarrow> jsnum \<Rightarrow> jsnum" where
  "distLoop sig1 sig2 i acc =
     (if i < length sig1
      then (let diff = jsub (toNumber (sig1 ! i))
                             (if i < length sig2 then toNumber (sig2 ! i) else NaN)
            in distLoop sig1 sig2 (i + 1) (jadd acc (jmul diff diff)))
      else acc)"
  by pat_completeness auto
termination
  by (relation "measure (\<lambda>(sig1, sig2, i, acc). length sig1 - i)") auto

declare distLoop.simps [simp del]

definition calculateSignatureDistance :: "jsval list option \<Rightarrow> jsval list option \<Rightarrow> jsnum" where
  "calculateSignatureDistance sig1 sig2 =
     (case (sig1, sig2) of
        (Some a, Some b) \<Rightarrow>
          if length a \<noteq> length b then Fin 1 else jsqrt (distLoop a b 0 (Fin 0))
      | _ \<Rightarrow> Fin 1)"

text \<open>
  The loop of \<open>findFaceMatch\<close> over the saved faces, carrying \<open>bestMatch\<close> and
  \<open>bestDistance\<close>.
\<close>

fun matchLoop :: "jsval list option \<Rightarrow> face list \<Rightarrow> face option \<Rightarrow> jsnum \<Rightarrow> face option" where
  "matchLoop cur [] bestMatch bestDistance = bestMatch"
| "matchLoop cur (f # fs) bestMatch bestDistance =
     (let distance = calculateSignatureDistance cur (descriptor f)
      in if jless distance bestDistance
         then matchLoop cur fs (Some f) distance
         else matchLoop cur fs bestMatch bestDistance)"

definition findFaceMatch :: "face list \<Rightarrow> jsval list option \<Rightarrow> face option" where
  "findFaceMatch savedFaces currentSignature =
     (if length savedFaces = 0 then None
      else matchLoop currentSignature savedFaces None (Fin (1/2)))"

text \<open>
  The Euclidean distance of the specification, in two readings. \<open>exactDistance\<close> is the
  formula over the reals. \<open>euclidean\<close> is the same formula as double arithmetic
  evaluates it: each difference, each square, the running sum in index order and the
  square root are rounded.
\<close>

definition exactDistance :: "real list \<Rightarrow> real list \<Rightarrow> real" where
  "exactDistance a b = sqrt (sum_list (map (\<lambda>(x, y). (x - y) * (x - y)) (zip a b)))"

definition euclidean :: "jsval list \<Rightarrow> jsval list \<Rightarrow> jsnum" where
  "euclidean a b =
     jsqrt (foldl (\<lambda>s (x, y). jadd s (jmul (jsub (toNumber x) (toNumber y))
                                          (jsub (toNumber x) (toNumber y))))
                  (Fin 0) (zip a b))"

section \<open>Frames\<close>

text \<open>
  An \<open>ImageData\<close>: its dimensions and its byte buffer, four bytes (R, G, B, A) per
  pixel, row after row.
\<close>

record imageData =
  img_width :: nat
  img_height :: nat
  img_data :: "8 word list"

text \<open>Drawing the video onto the canvas and reading the pixels back may throw.\<close>

datatype grab = Throws | Grabbed imageData

section \<open>Motion detection (motion-detector.tsx)\<close>

record motionState =
  previousFrame :: "imageData option"
  motionDetected :: bool
  sensitivity :: int
  isActive :: bool

text \<open>The state of a freshly mounted component.\<close>

definition initialMotionState :: motionState where
  "initialMotionState =
     \<lparr>previousFrame = None, motionDetected = False, sensitivity = 20, isActive = False\<rparr>"

text \<open>What one call of \<open>detectMotion\<close> finds around it.\<close>

record tick =
  mounted :: bool  \<comment> \<open>\<open>canvasRef.current\<close> and \<open>videoRef.current\<close> are set\<close>
  videoWidth :: nat
  videoHeight :: nat
  frame :: grab

text \<open>The absolute difference of two bytes, as a number.\<close>

definition absDiff :: "8 word \<Rightarrow> 8 word \<Rightarrow> int" where
  "absDiff a b = \<bar>int (unat a) - int (unat b)\<bar>"

text \<open>
  The comparison loop, from byte offset \<open>i\<close> with \<open>motionPixels\<close> counted so far.
  The loop condition \<open>i < dataLength - 3\<close> is on numbers, so it is written on \<open>int\<close>.
  Under it, the offsets \<open>i\<close>, \<open>i + 1\<close> and \<open>i + 2\<close> are below \<open>dataLength\<close>, the
  minimum of the two lengths: no read is out of range.
\<close>

function motionLoop :: "8 word list \<Rightarrow> 8 word list \<Rightarrow> int \<Rightarrow> nat \<Rightarrow> nat \<Rightarrow> nat \<Rightarrow> nat" where
  "motionLoop currentData previousData sens dataLength i motionPixels =
     (if int i < int dataLength - 3
      then (let rdiff = absDiff (currentData ! i) (previousData ! i);
                gdiff = absDiff (currentData ! (i + 1)) (previousData ! (i + 1));
                bdiff = absDiff (currentData ! (i + 2)) (previousData ! (i + 2))
            in motionLoop currentData previousData sens dataLength (i + 16)
                 (if rdiff > sens \<or> gdiff > sens \<or> bdiff > sens
                  then motionPixels + 1 else motionPixels))
      else motionPixels)"
  by pat_completeness auto
termination
  by (relation "measure (\<lambda>(c, p, s, dataLength, i, m). dataLength - i)") auto

declare motionLoop.simps [simp del]

text \<open>
  The comparison of the current frame with the previous one: \<open>None\<close> when the guards
  fail and \<open>setMotionDetected\<close> is not called, otherwise the value it is called with.
\<close>

definition compareFrames :: "int \<Rightarrow> imageData option \<Rightarrow> imageData \<Rightarrow> bool option" where
  "compareFrames sens previous currentFrame =
     (case previous of
        None \<Rightarrow> None
      | Some prev \<Rightarrow>
          if img_width prev = img_width currentFrame \<and> img_height prev = img_height currentFrame
          then (let currentData = img_data currentFrame; previousData = img_data prev
                in if length currentData = length previousData
                   then (let dataLength = min (length currentData) (length previousData);
                             motionPixels = motionLoop currentData previousData sens dataLength 0 0;
                             totalSampledPixels = real dataLength / 16;
                             motionThreshold = totalSampledPixels * (1 / 100)
                         in Some (real motionPixels > motionThreshold))
                   else None)
          else None)"

text \<open>
  One call of \<open>detectMotion\<close>. Re-arming the animation-frame callback is the host's
  scheduling and is not part of the state.
\<close>

definition detectMotion :: "tick \<Rightarrow> motionState \<Rightarrow> motionState" where
  "detectMotion t st =
     (if \<not> mounted t \<or> \<not> isActive st then st
      else if videoWidth t = 0 \<or> videoHeight t = 0 then st
      else (case frame t of
              Throws \<Rightarrow> st
            | Grabbed currentFrame \<Rightarrow>
                (case compareFrames (sensitivity st) (previousFrame st) currentFrame of
                   None \<Rightarrow> st\<lparr>previousFrame := Some currentFrame\<rparr>
                 | Some m \<Rightarrow> st\<lparr>motionDetected := m, previousFrame := Some currentFrame\<rparr>)))"

text \<open>The other handlers of the component that change this state.\<close>

datatype motionEvent = Tick tick | StartWebcam bool | StopWebcam | SetSensitivity int

fun motionStep :: "motionState \<Rightarrow> motionEvent \<Rightarrow> motionState" where
  "motionStep st (Tick t) = detectMotion t st"
| "motionStep st (StartWebcam granted) = st\<lparr>isActive := granted\<rparr>"
| "motionStep st StopWebcam = st\<lparr>isActive := False, motionDetected := False\<rparr>"
| "motionStep st (SetSensitivity s) = st\<lparr>sensitivity := s\<rparr>"

text \<open>The byte offsets that the comparison loop visits, from offset \<open>i\<close> on.\<close>

function sampledFrom :: "nat \<Rightarrow> nat \<Rightarrow> nat list" where
  "sampledFrom dataLength i =
     (if int i < int dataLength - 3 then i # sampledFrom dataLength (i + 16) else [])"
  by pat_completeness auto
termination
  by (relation "measure (\<lambda>(dataLength, i). dataLength - i)") auto

declare sampledFrom.simps [simp del]

text \<open>A sampled pixel counts as changed when a colour channel moved by more than the sensitivity.\<close>

definition changed :: "8 word list \<Rightarrow> 8 word list \<Rightarrow> int \<Rightarrow> nat \<Rightarrow> bool" where
  "changed currentData previousData sens i \<longleftrightarrow>
     absDiff (currentData ! i) (previousData ! i) > sens
     \<or> absDiff (currentData ! (i + 1)) (previousData ! (i + 1)) > sens
     \<or> absDiff (currentData ! (i + 2)) (previousData ! (i + 2)) > sens"

section \<open>The registry of saved faces\<close>

text \<open>
  The part of the component state that the registry operations read and write. Strings
  are lists of 8-bit code units.
\<close>

record faceState =
  savedFaces :: "face list"
  error :: "string option"
  faceName :: string
  faceDetected :: bool
  matchedFace :: "face option"

definition initialFaceState :: faceState where
  "initialFaceState =
     \<lparr>savedFaces = [], error = None, faceName = [], faceDetected = False, matchedFace = None\<rparr>"

text \<open>
  \<open>String.prototype.trim\<close> removes white space at both ends. Among 8-bit code units
  the white space characters are tab, line feed, vertical tab, form feed, carriage
  return, space and no-break space.
\<close>

definition isWhiteSpace :: "char \<Rightarrow> bool" where
  "isWhiteSpace c \<longleftrightarrow> c \<in> {CHR 0x09, CHR 0x0A, CHR 0x0B, CHR 0x0C, CHR 0x0D, CHR 0x20, CHR 0xA0}"

definition trim :: "string \<Rightarrow> string" where
  "trim s = rev (dropWhile isWhiteSpace (rev (dropWhile isWhiteSpace s)))"

text \<open>
  \<open>Number.prototype.toString\<close> on a non-negative integer: its decimal digits. The digit
  character is only ever asked for a number below 10.
\<close>

definition digitChar :: "nat \<Rightarrow> char" where
  "digitChar d = ''0123456789'' ! d"

function toString :: "nat \<Rightarrow> string" where
  "toString n = (if n < 10 then [digitChar n] else toString (n div 10) @ [digitChar (n mod 10)])"
  by pat_completeness auto
termination
  by (relation "measure id") auto

declare toString.simps [simp del]

subsection \<open>Enrolment (\<open>saveFace\<close> of the face-api component)\<close>

text \<open>The outcome of the detection that \<open>saveFace\<close> awaits: it throws, or it yields the
  descriptors of the faces found, the main face first.\<close>

datatype detection = DetectionThrows | Detections "jsnum list list"

record saveEnv =
  videoMounted :: bool  \<comment> \<open>\<open>videoRef.current\<close> is set\<close>
  detections :: detection
  now :: nat  \<comment> \<open>\<open>Date.now()\<close>, milliseconds\<close>
  localeString :: string  \<comment> \<open>\<open>new Date().toLocaleString()\<close>\<close>

definition saveFace :: "saveEnv \<Rightarrow> faceState \<Rightarrow> faceState" where
  "saveFace env st =
     (if \<not> faceDetected st \<or> trim (faceName st) = [] \<or> \<not> videoMounted env then st
      else (case detections env of
              DetectionThrows \<Rightarrow> st\<lparr>error := Some ''Failed to save face. Please try again.''\<rparr>
            | Detections ds \<Rightarrow>
                (case ds of
                   [] \<Rightarrow> st\<lparr>error :=
                               Some ''No face detected. Please position your face in the frame.''\<rparr>
                 | faceDescriptor # _ \<Rightarrow>
                     (let newFace = \<lparr>face_id = Some (toString (now env)),
                                     name = Some (trim (faceName st)),
                                     savedAt = Some (localeString env),
                                     descriptor = Some (map Num faceDescriptor)\<rparr>
                      in st\<lparr>savedFaces := savedFaces st @ [newFace], faceName := []\<rparr>))))"

subsection \<open>Removal\<close>

definition removeFace :: "string option \<Rightarrow> faceState \<Rightarrow> faceState" where
  "removeFace i st =
     st\<lparr>savedFaces := filter (\<lambda>face. face_id face \<noteq> i) (savedFaces st),
        matchedFace := (case matchedFace st of
                          None \<Rightarrow> None
                        | Some m \<Rightarrow> if face_id m = i then None else Some m)\<rparr>"

subsection \<open>Export and import\<close>

text \<open>
  \<open>JSON.stringify\<close> and \<open>JSON.parse\<close> belong to the host, not to this program: they are
  parameters. A parse throws, or yields a value that is not an array, or an array; the
  elements of an array are taken to be objects, each with or without the four fields of
  a saved face.
\<close>

datatype parsed = SyntaxError | NotArray | Array "face list"

text \<open>The export produces a file, or nothing when there is no saved face.\<close>

definition exportFaces :: "(face list \<Rightarrow> 'txt) \<Rightarrow> faceState \<Rightarrow> 'txt option" where
  "exportFaces stringify st =
     (if length (savedFaces st) = 0 then None else Some (stringify (savedFaces st)))"

text \<open>The body of \<open>reader.onload\<close>, given what \<open>JSON.parse\<close> made of the file.\<close>

definition onload :: "parsed \<Rightarrow> faceState \<Rightarrow> faceState" where
  "onload p st =
     (case p of
        SyntaxError \<Rightarrow> st\<lparr>error := Some ''Invalid face signatures file. Please try again.''\<rparr>
      | NotArray \<Rightarrow> st
      | Array importedFaces \<Rightarrow>
          if length importedFaces > 0
          then st\<lparr>savedFaces := savedFaces st @ importedFaces\<rparr>
          else st)"

definition importFaces :: "('txt \<Rightarrow> parsed) \<Rightarrow> 'txt option \<Rightarrow> faceState \<Rightarrow> faceState" where
  "importFaces parse file st =
     (case file of None \<Rightarrow> st | Some content \<Rightarrow> onload (parse content) st)"

text \<open>
  The host's \<open>JSON.stringify\<close> and \<open>JSON.parse\<close> on the values that a registry holds.
  A file is text that does not parse, or a JSON document; a document stands for its
  text. A number that is not finite is written as \<open>null\<close>; a finite number is written
  with digits that read back as the same double, and \<open>JNum\<close> holds the value read; an
  absent field is left out. Reading a number rounds the written value to a double, so a
  literal such as \<open>1e999\<close> becomes an infinity. In a descriptor only numbers and
  \<open>null\<close> are modelled; anything else reads as \<open>null\<close>.
\<close>

datatype json = JNull | JBool bool | JNum real | JStr string | JArr "json list"
  | JObj "(string \<times> json) list"

datatype fileText = Malformed | Document json

fun numberJson :: "jsval \<Rightarrow> json" where
  "numberJson (Num (Fin x)) = JNum x"
| "numberJson _ = JNull"

fun jsonMember :: "string \<Rightarrow> json option \<Rightarrow> (string \<times> json) list" where
  "jsonMember k None = []"
| "jsonMember k (Some v) = [(k, v)]"

definition faceJson :: "face \<Rightarrow> json" where
  "faceJson f =
     JObj (jsonMember ''id'' (map_option JStr (face_id f))
           @ jsonMember ''name'' (map_option JStr (name f))
           @ jsonMember ''savedAt'' (map_option JStr (savedAt f))
           @ jsonMember ''descriptor'' (map_option (\<lambda>d. JArr (map numberJson d)) (descriptor f)))"

definition jsonStringify :: "face list \<Rightarrow> fileText" where
  "jsonStringify faces = Document (JArr (map faceJson faces))"

fun jsonNumber :: "json \<Rightarrow> jsval" where
  "jsonNumber (JNum r) = Num (fl r)"
| "jsonNumber _ = Null"

fun stringField :: "json option \<Rightarrow> string option" where
  "stringField (Some (JStr s)) = Some s"
| "stringField _ = None"

fun descriptorField :: "json option \<Rightarrow> jsval list option" where
  "descriptorField (Some (JArr xs)) = Some (map jsonNumber xs)"
| "descriptorField _ = None"

text \<open>Of two members with the same key the parser keeps the later one.\<close>

fun jsonFace :: "json \<Rightarrow> face" where
  "jsonFace (JObj members) =
     \<lparr>face_id = stringField (map_of (rev members) ''id''),
      name = stringField (map_of (rev members) ''name''),
      savedAt = stringField (map_of (rev members) ''savedAt''),
      descriptor = descriptorField (map_of (rev members) ''descriptor'')\<rparr>"
| "jsonFace _ = \<lparr>face_id = None, name = None, savedAt = None, descriptor = None\<rparr>"

fun jsonParse :: "fileText \<Rightarrow> parsed" where
  "jsonParse Malformed = SyntaxError"
| "jsonParse (Document (JArr xs)) = Array (map jsonFace xs)"
| "jsonParse (Document _) = NotArray"

text \<open>
  A registry whose descriptors hold only \<open>null\<close> and finite doubles: the values that a
  JSON file can carry.
\<close>

definition finiteDescriptors :: "face list \<Rightarrow> bool" where
  "finiteDescriptors faces \<longleftrightarrow>
     (\<forall>f \<in> set faces. \<forall>d. descriptor f = Some d \<longrightarrow>
        (\<forall>v \<in> set d. v = Null \<or> (\<exists>x. v = Num (Fin x) \<and> fl x = Fin x)))"

text \<open>
  An entry that the specification calls well-formed: it has a name, a descriptor of
  non-zero length, an id and a date.
\<close>

definition specValidEntry :: "face \<Rightarrow> bool" where
  "specValidEntry f \<longleftrightarrow>
     name f \<noteq> None \<and> name f \<noteq> Some []
     \<and> (case descriptor f of None \<Rightarrow> False | Some d \<Rightarrow> length d > 0)
     \<and> face_id f \<noteq> None \<and> savedAt f \<noteq> None"

text \<open>
  An id read as a decimal number, the way the specification orders ids by creation time.
\<close>

definition digitValue :: "char \<Rightarrow> nat" where
  "digitValue c = of_char c - 48"

definition idNumber :: "string \<Rightarrow> nat" where
  "idNumber s = foldl (\<lambda>n c. 10 * n + digitValue c) 0 s"

text \<open>The invariant that the specification asks of the registry: no two entries share an id.\<close>

definition uniqueIds :: "face list \<Rightarrow> bool" where
  "uniqueIds faces \<longleftrightarrow> distinct (map face_id faces)"

section \<open>The heuristic detector (face-recognition-tensorflow.tsx)\<close>

text \<open>
  The host gives an \<open>ImageData\<close> a buffer of \<open>4 * width * height\<close> bytes, and no typed
  array has \<open>2 ^ 53\<close> elements or more.
\<close>

definition wellFormed :: "imageData \<Rightarrow> bool" where
  "wellFormed img \<longleftrightarrow>
     length (img_data img) = 4 * img_width img * img_height img
     \<and> length (img_data img) < 2 ^ 53"

text \<open>
  Reading the byte buffer at a number: a typed array yields \<open>undefined\<close> at an index
  that is not an integer or is out of range, and \<open>undefined\<close> in arithmetic is \<open>NaN\<close>.
\<close>

definition dataAt :: "8 word list \<Rightarrow> jsnum \<Rightarrow> jsnum" where
  "dataAt d i =
     (case i of
        Fin r \<Rightarrow>
          if of_int \<lfloor>r\<rfloor> = r \<and> 0 \<le> r \<and> r < real (length d)
          then Fin (real (unat (d ! nat \<lfloor>r\<rfloor>)))
          else NaN
      | _ \<Rightarrow> NaN)"

record faceRect =
  rect_x :: jsnum
  rect_y :: jsnum
  rect_width :: jsnum
  rect_height :: jsnum

text \<open>The centred square that \<open>detectFaces\<close> and \<open>saveFace\<close> both compute.\<close>

definition centerRect :: "nat \<Rightarrow> nat \<Rightarrow> faceRect" where
  "centerRect w h =
     (let centerX = jfloor (jdiv (Fin (real w)) (Fin 2));
          centerY = jfloor (jdiv (Fin (real h)) (Fin 2));
          rectSize = jdiv (Fin (real (min w h))) (Fin 3)
      in \<lparr>rect_x = jsub centerX (jdiv rectSize (Fin 2)),
          rect_y = jsub centerY (jdiv rectSize (Fin 2)),
          rect_width = rectSize, rect_height = rectSize\<rparr>)"

text \<open>
  The body of the inner loop of the colour analysis, at the coordinates \<open>(x, y)\<close>; the
  accumulator is \<open>(rTotal, gTotal, bTotal, pixelCount)\<close>. The coordinates are numbers,
  not integers: the source does not round them.
\<close>

definition sampleStep ::
  "nat \<Rightarrow> 8 word list \<Rightarrow> jsnum \<Rightarrow> jsnum \<Rightarrow> jsnum \<times> jsnum \<times> jsnum \<times> nat
     \<Rightarrow> jsnum \<times> jsnum \<times> jsnum \<times> nat"
where
  "sampleStep canvasWidth d y x acc =
     (case acc of
        (rTotal, gTotal, bTotal, pixelCount) \<Rightarrow>
          (let i = jmul (jadd (jmul y (Fin (real canvasWidth))) x) (Fin 4)
           in if jge i (Fin 0) \<and> jless i (Fin (real (length d)))
              then (jadd rTotal (dataAt d i), jadd gTotal (dataAt d (jadd i (Fin 1))),
                    jadd bTotal (dataAt d (jadd i (Fin 2))), pixelCount + 1)
              else acc))"

text \<open>
  The inner loop, over \<open>x\<close>, and the outer loop, over \<open>y\<close>. A step adds 10 and rounds,
  so on very large coordinates a step can leave the coordinate where it was and the
  loop never ends: the loops are partial, and \<open>None\<close> stands for not returning.
\<close>

partial_function (option) sampleRow ::
  "nat \<Rightarrow> 8 word list \<Rightarrow> faceRect \<Rightarrow> jsnum \<Rightarrow> jsnum \<Rightarrow> jsnum \<times> jsnum \<times> jsnum \<times> nat
     \<Rightarrow> (jsnum \<times> jsnum \<times> jsnum \<times> nat) option"
where
  "sampleRow canvasWidth d faceRect y x acc =
     (if jless x (jadd (rect_x faceRect) (rect_width faceRect))
      then sampleRow canvasWidth d faceRect y (jadd x (Fin 10))
             (sampleStep canvasWidth d y x acc)
      else Some acc)"

partial_function (option) sampleRows ::
  "nat \<Rightarrow> 8 word list \<Rightarrow> faceRect \<Rightarrow> jsnum \<Rightarrow> jsnum \<times> jsnum \<times> jsnum \<times> nat
     \<Rightarrow> (jsnum \<times> jsnum \<times> jsnum \<times> nat) option"
where
  "sampleRows canvasWidth d faceRect y acc =
     (if jless y (jadd (rect_y faceRect) (rect_height faceRect))
      then Option.bind (sampleRow canvasWidth d faceRect y (rect_x faceRect) acc)
             (\<lambda>acc'. sampleRows canvasWidth d faceRect (jadd y (Fin 10)) acc')
      else Some acc)"

text \<open>A total divided by the pixel count; \<open>0 / 0\<close> is \<open>NaN\<close>.\<close>

definition average :: "jsnum \<Rightarrow> nat \<Rightarrow> jsnum" where
  "average colourTotal pixelCount = jdiv colourTotal (Fin (real pixelCount))"

text \<open>The colour analysis of one frame: its variance, its brightness and the verdict.\<close>

record analysis =
  colorVariance :: jsnum
  brightnessAvg :: jsnum
  isFaceDetected :: bool

definition verdict :: "jsnum \<times> jsnum \<times> jsnum \<times> nat \<Rightarrow> analysis" where
  "verdict acc =
     (case acc of
        (rTotal, gTotal, bTotal, pixelCount) \<Rightarrow>
          (let rAvg = average rTotal pixelCount;
               gAvg = average gTotal pixelCount;
               bAvg = average bTotal pixelCount;
               cv = jadd (jadd (jabs (jsub rAvg gAvg)) (jabs (jsub rAvg bAvg)))
                         (jabs (jsub gAvg bAvg));
               br = jdiv (jadd (jadd rAvg gAvg) bAvg) (Fin 3)
           in \<lparr>colorVariance = cv, brightnessAvg = br,
               isFaceDetected = (jless cv (Fin 80) \<and> jless (Fin 80) br \<and> jless br (Fin 200))\<rparr>))"

definition analyse :: "imageData \<Rightarrow> analysis option" where
  "analyse imageData =
     (let faceRect = centerRect (img_width imageData) (img_height imageData)
      in map_option verdict
           (sampleRows (img_width imageData) (img_data imageData) faceRect (rect_y faceRect)
              (Fin 0, Fin 0, Fin 0, 0)))"

text \<open>The byte offset \<open>pixelIndex\<close> of the sample of index \<open>i\<close>.\<close>

definition pixelIndex :: "imageData \<Rightarrow> faceRect \<Rightarrow> nat \<Rightarrow> jsnum" where
  "pixelIndex imageData faceRect i =
     (let row = jdiv (jfloor (jdiv (Fin (real i)) (Fin 8))) (Fin 16);
          col = jdiv (Fin (real (i mod 8))) (Fin 8);
          x = jfloor (jadd (rect_x faceRect) (jmul (rect_width faceRect) col));
          y = jfloor (jadd (rect_y faceRect) (jmul (rect_height faceRect) row))
      in jmul (jadd (jmul y (Fin (real (img_width imageData)))) x) (Fin 4))"

text \<open>
  The weighted value of a pixel, \<open>(r * 0.3 + g * 0.6 + b * 0.1) / 255\<close>; the three
  weights are the doubles nearest to the decimals.
\<close>

definition luma :: "jsnum \<Rightarrow> jsnum \<Rightarrow> jsnum \<Rightarrow> jsnum" where
  "luma r g b =
     jdiv (jadd (jadd (jmul r (fl (3 / 10))) (jmul g (fl (6 / 10)))) (jmul b (fl (1 / 10))))
          (Fin 255)"

text \<open>One component of the signature: the sample of index \<open>i\<close>.\<close>

definition signatureAt :: "imageData \<Rightarrow> faceRect \<Rightarrow> nat \<Rightarrow> jsnum" where
  "signatureAt imageData faceRect i =
     (let d = img_data imageData;
          p = pixelIndex imageData faceRect i
      in if jge p (Fin 0) \<and> jless p (Fin (real (length d)))
         then luma (dataAt d p) (dataAt d (jadd p (Fin 1))) (dataAt d (jadd p (Fin 2)))
         else Fin 0)"

definition generateFaceSignature :: "imageData \<Rightarrow> faceRect \<Rightarrow> jsnum list" where
  "generateFaceSignature imageData faceRect = map (signatureAt imageData faceRect) [0..<128]"

text \<open>
  One call of the closure \<open>detectFaces\<close>. It reads \<open>detecting\<close> as the render that
  created the closure saw it, and does nothing when that is false or an element is
  missing. Otherwise it analyses the grabbed frame and, when a face is seen and the
  registry is not empty, looks for a match.
\<close>

record faceTick =
  detecting :: bool
  elementsMounted :: bool  \<comment> \<open>\<open>videoRef.current\<close> and \<open>canvasRef.current\<close> are set\<close>
  grabbed :: grab

definition detectFaces :: "faceTick \<Rightarrow> faceState \<Rightarrow> faceState option" where
  "detectFaces t st =
     (if \<not> detecting t \<or> \<not> elementsMounted t then Some st
      else (case grabbed t of
              Throws \<Rightarrow> Some st
            | Grabbed imageData \<Rightarrow>
                Option.bind (analyse imageData)
                  (\<lambda>a. if isFaceDetected a
                       then (let faceRect = centerRect (img_width imageData) (img_height imageData);
                                 faceSignature = generateFaceSignature imageData faceRect
                             in if length (savedFaces st) > 0
                                then Some (st\<lparr>faceDetected := True,
                                              matchedFace := findFaceMatch (savedFaces st)
                                                               (Some (map Num faceSignature))\<rparr>)
                                else Some (st\<lparr>faceDetected := True\<rparr>))
                       else Some (st\<lparr>faceDetected := False, matchedFace := None\<rparr>))))"

text \<open>A frame of one colour.\<close>

definition solidFrame :: "nat \<Rightarrow> nat \<Rightarrow> 8 word \<Rightarrow> 8 word \<Rightarrow> 8 word \<Rightarrow> 8 word \<Rightarrow> imageData" where
  "solidFrame w h r g b a =
     \<lparr>img_width = w, img_height = h, img_data = concat (replicate (w * h) [r, g, b, a])\<rparr>"

section \<open>Verification\<close>

subsection \<open>Rounding\<close>

lemma pow2_powr: "pow2 e = 2 powr (real_of_int e)"
  by (simp add: pow2_def powr_int)

lemma pow2_pos [simp]: "0 < pow2 e"
  by (simp add: pow2_powr)

lemma pow2_nonneg [simp]: "0 \<le> pow2 e"
  using pow2_pos [of e] by (rule less_imp_le)

lemma pow2_neq0 [simp]: "pow2 e \<noteq> 0"
  by (metis less_irrefl pow2_pos)

lemma pow2_add: "pow2 (a + b) = pow2 a * pow2 b"
  by (simp add: pow2_powr powr_add)

lemma pow2_diff: "pow2 (a - b) = pow2 a / pow2 b"
  by (simp add: pow2_powr powr_diff)

lemma pow2_mono: "a \<le> b \<Longrightarrow> pow2 a \<le> pow2 b"
  by (simp add: pow2_powr)

lemma pow2_less_iff: "pow2 a < pow2 b \<longleftrightarrow> a < b"
  by (simp add: pow2_powr)

lemma pow2_le_iff: "pow2 a \<le> pow2 b \<longleftrightarrow> a \<le> b"
  by (simp add: pow2_powr)

lemma pow2_0 [simp]: "pow2 0 = 1"
  by (simp add: pow2_def)

lemma pow2_1 [simp]: "pow2 1 = 2"
  by (simp add: pow2_def)

lemma pow2_split53: "pow2 (e - 52) * pow2 53 = pow2 (e + 1)"
proof -
  have "e + 1 = (e - 52) + 53" by simp
  then show ?thesis by (metis pow2_add)
qed

lemma pow2_split52: "pow2 (e - 52) * pow2 52 = pow2 e"
proof -
  have "e = (e - 52) + 52" by simp
  then show ?thesis by (metis pow2_add)
qed

lemma pow2_nat: "0 \<le> e \<Longrightarrow> pow2 e = of_int (2 ^ nat e)"
  by (simp add: pow2_def)

lemma expUp_spec:
  "1 \<le> x \<Longrightarrow> pow2 (expUp x e - e) \<le> x \<and> x < pow2 (expUp x e - e + 1)"
proof (induction x e rule: expUp.induct)
  case (1 x e)
  show ?case
  proof (cases "2 \<le> x")
    case True
    then have u: "expUp x e = expUp (x / 2) (e + 1)" by (subst expUp.simps) simp
    from True have "1 \<le> x / 2" by simp
    from "1.IH" [OF True this]
    have "pow2 (expUp x e - (e + 1)) \<le> x / 2" and "x / 2 < pow2 (expUp x e - (e + 1) + 1)"
      unfolding u by simp_all
    then have "pow2 (expUp x e - (e + 1)) * pow2 1 \<le> x"
      and "x < pow2 (expUp x e - (e + 1) + 1) * pow2 1" by simp_all
    then show ?thesis unfolding pow2_add [symmetric] by (simp add: algebra_simps)
  next
    case False
    then have "expUp x e = e" by (subst expUp.simps) simp
    with False "1.prems" show ?thesis by simp
  qed
qed

lemma expDown_spec:
  "0 < x \<Longrightarrow> x < 2 \<Longrightarrow> pow2 (expDown x e - e) \<le> x \<and> x < pow2 (expDown x e - e + 1)"
proof (induction x e rule: expDown.induct)
  case (1 x e)
  show ?case
  proof (cases "0 < x \<and> x < 1")
    case True
    then have u: "expDown x e = expDown (2 * x) (e - 1)" by (subst expDown.simps) simp
    from True have "0 < 2 * x" "2 * x < 2" by simp_all
    from "1.IH" [OF True this]
    have "pow2 (expDown x e - (e - 1)) \<le> 2 * x" and "2 * x < pow2 (expDown x e - (e - 1) + 1)"
      unfolding u by simp_all
    then have "pow2 (expDown x e - (e - 1)) / pow2 1 \<le> x"
      and "x < pow2 (expDown x e - (e - 1) + 1) / pow2 1" by simp_all
    then show ?thesis unfolding pow2_diff [symmetric] by (simp add: algebra_simps)
  next
    case False
    have "expDown x e = e" by (subst expDown.simps) (simp only: if_not_P [OF False])
    with False "1.prems" show ?thesis by auto
  qed
qed

lemma exponent_bounds:
  assumes "x \<noteq> 0"
  shows "pow2 (exponent x) \<le> \<bar>x\<bar>" and "\<bar>x\<bar> < pow2 (exponent x + 1)"
proof -
  have "pow2 (exponent x) \<le> \<bar>x\<bar> \<and> \<bar>x\<bar> < pow2 (exponent x + 1)"
  proof (cases "1 \<le> \<bar>x\<bar>")
    case True
    from expUp_spec [OF True, of 0] True show ?thesis by (simp add: exponent_def)
  next
    case False
    with assms have "0 < \<bar>x\<bar>" "\<bar>x\<bar> < 2" by simp_all
    from expDown_spec [OF this, of 0] False show ?thesis by (simp add: exponent_def)
  qed
  then show "pow2 (exponent x) \<le> \<bar>x\<bar>" and "\<bar>x\<bar> < pow2 (exponent x + 1)" by simp_all
qed

lemma exponent_unique:
  assumes "pow2 e \<le> \<bar>x\<bar>" "\<bar>x\<bar> < pow2 (e + 1)"
  shows "exponent x = e"
proof -
  from assms(1) pow2_pos [of e] have "0 < \<bar>x\<bar>" by linarith
  then have nz: "x \<noteq> 0" by simp
  from exponent_bounds [OF nz] assms
  have "pow2 e < pow2 (exponent x + 1)" "pow2 (exponent x) < pow2 (e + 1)" by simp_all
  then have "e < exponent x + 1" "exponent x < e + 1" by (simp_all only: pow2_less_iff)
  then show ?thesis by simp
qed


lemma roundEven_of_int [simp]: "roundEven (of_int n) = n"
  by (simp add: roundEven_def)

lemma roundEven_floor: "\<lfloor>t\<rfloor> \<le> roundEven t" and roundEven_floor1: "roundEven t \<le> \<lfloor>t\<rfloor> + 1"
  by (simp_all add: roundEven_def Let_def)

lemma roundEven_ge_int: "of_int n \<le> t \<Longrightarrow> n \<le> roundEven t"
proof -
  assume "of_int n \<le> t"
  then have "n \<le> \<lfloor>t\<rfloor>" by (simp add: le_floor_iff)
  with roundEven_floor [of t] show ?thesis by simp
qed

lemma roundEven_le_int: "t \<le> of_int n \<Longrightarrow> roundEven t \<le> n"
proof -
  assume a: "t \<le> of_int n"
  show ?thesis
  proof (cases "\<lfloor>t\<rfloor> < n")
    case True
    with roundEven_floor1 [of t] show ?thesis by simp
  next
    case False
    with a have "t = of_int n" by linarith
    then show ?thesis by simp
  qed
qed

lemma roundEven_mono: "t \<le> u \<Longrightarrow> roundEven t \<le> roundEven u"
proof -
  assume a: "t \<le> u"
  then have fg: "\<lfloor>t\<rfloor> \<le> \<lfloor>u\<rfloor>" by (rule floor_mono)
  show ?thesis
  proof (cases "\<lfloor>t\<rfloor> < \<lfloor>u\<rfloor>")
    case True
    with roundEven_floor1 [of t] roundEven_floor [of u] show ?thesis by simp
  next
    case False
    with fg have e: "\<lfloor>t\<rfloor> = \<lfloor>u\<rfloor>" by simp
    with a have "t - of_int \<lfloor>t\<rfloor> \<le> u - of_int \<lfloor>u\<rfloor>" by simp
    then show ?thesis unfolding roundEven_def Let_def e by auto
  qed
qed

lemma rnd_eq:
  "x \<noteq> 0 \<Longrightarrow>
   rnd x = pow2 (max (exponent x) (- 1022) - 52)
           * of_int (roundEven (x / pow2 (max (exponent x) (- 1022) - 52)))"
  by (simp add: rnd_def Let_def)

lemma rnd_0 [simp]: "rnd 0 = 0"
  by (simp add: rnd_def)

lemma rnd_eval:
  assumes "pow2 e \<le> \<bar>x\<bar>" "\<bar>x\<bar> < pow2 (e + 1)" "- 1022 \<le> e"
  shows "rnd x = pow2 (e - 52) * of_int (roundEven (x / pow2 (e - 52)))"
proof -
  from assms(1) pow2_pos [of e] have "0 < \<bar>x\<bar>" by linarith
  then have nz: "x \<noteq> 0" by simp
  from exponent_unique [OF assms(1,2)] assms(3) have "max (exponent x) (- 1022) = e" by simp
  with rnd_eq [OF nz] show ?thesis by simp
qed

lemma rnd_eval_subnormal:
  assumes "x \<noteq> 0" "\<bar>x\<bar> < pow2 (- 1022)"
  shows "rnd x = pow2 (- 1074) * of_int (roundEven (x / pow2 (- 1074)))"
proof -
  from exponent_bounds(1) [OF assms(1)] assms(2) have "pow2 (exponent x) < pow2 (- 1022)" by simp
  then have "exponent x < - 1022" by (simp only: pow2_less_iff)
  then have "max (exponent x) (- 1022) = - 1022" by simp
  with rnd_eq [OF assms(1)] show ?thesis by simp
qed

lemma rnd_nonneg: "0 \<le> x \<Longrightarrow> 0 \<le> rnd x"
proof (cases "x = 0")
  case True
  then show ?thesis by simp
next
  case False
  assume "0 \<le> x"
  then have "of_int 0 \<le> x / pow2 (max (exponent x) (- 1022) - 52)" by simp
  then have "0 \<le> roundEven (x / pow2 (max (exponent x) (- 1022) - 52))"
    by (rule roundEven_ge_int)
  then show ?thesis unfolding rnd_eq [OF False] by simp
qed

lemma rnd_exact:
  assumes m: "\<bar>m\<bar> < 2 ^ 53" and k: "- 1074 \<le> k"
  shows "rnd (of_int m * pow2 k) = of_int m * pow2 k"
proof (cases "m = 0")
  case True
  then show ?thesis by simp
next
  case False
  define x where "x = of_int m * pow2 k"
  from False have nz: "x \<noteq> 0" using pow2_pos [of k] by (simp add: x_def)
  define e where "e = max (exponent x) (- 1022)"
  have p53: "pow2 53 = 2 ^ 53" by (simp add: pow2_def)
  from m have "real_of_int \<bar>m\<bar> < 2 ^ 53" by (metis of_int_less_numeral_power_cancel_iff)
  then have "\<bar>x\<bar> < pow2 53 * pow2 k"
    unfolding x_def p53 abs_mult using pow2_pos [of k] by simp
  then have "\<bar>x\<bar> < pow2 (k + 53)" by (simp add: pow2_add mult.commute)
  with exponent_bounds(1) [OF nz] have "pow2 (exponent x) < pow2 (k + 53)" by simp
  then have "exponent x < k + 53" by (simp only: pow2_less_iff)
  with k have ek: "e - 52 \<le> k" by (simp add: e_def)
  define d where "d = nat (k - (e - 52))"
  from ek have "k = (e - 52) + int d" by (simp add: d_def)
  then have "pow2 k = pow2 (e - 52) * pow2 (int d)" by (simp only: pow2_add)
  also have "pow2 (int d) = of_int (2 ^ d)" by (simp add: pow2_def)
  finally have pk: "pow2 k = pow2 (e - 52) * of_int (2 ^ d)" .
  have "x / pow2 (e - 52) = of_int (m * 2 ^ d)"
    unfolding x_def pk using pow2_pos [of "e - 52"] by simp
  then have "roundEven (x / pow2 (e - 52)) = m * 2 ^ d" by (simp only: roundEven_of_int)
  then have "rnd x = pow2 (e - 52) * of_int (m * 2 ^ d)"
    unfolding rnd_eq [OF nz] e_def by simp
  also have "\<dots> = x" unfolding x_def pk by simp
  finally show ?thesis unfolding x_def .
qed

lemma rnd_int_exact:
  assumes "\<bar>n\<bar> \<le> 2 ^ 53"
  shows "rnd (of_int n) = of_int n"
proof (cases "\<bar>n\<bar> < 2 ^ 53")
  case True
  from rnd_exact [OF True, of 0] show ?thesis by simp
next
  case False
  with assms have "\<bar>n\<bar> = 2 ^ 53" by simp
  then have "n = 2 ^ 52 * 2 \<or> n = - (2 ^ 52) * 2" by auto
  then have n: "real_of_int n = of_int (2 ^ 52) * pow2 1 \<or> real_of_int n = of_int (- (2 ^ 52)) * pow2 1"
    by auto
  have "rnd (of_int (2 ^ 52) * pow2 1) = of_int (2 ^ 52) * pow2 1"
    by (rule rnd_exact) simp_all
  moreover have "rnd (of_int (- (2 ^ 52)) * pow2 1) = of_int (- (2 ^ 52)) * pow2 1"
    by (rule rnd_exact) simp_all
  ultimately show ?thesis using n by auto
qed

lemma rnd_mono_nonneg:
  assumes "0 \<le> x" "x \<le> y"
  shows "rnd x \<le> rnd y"
proof (cases "x = 0")
  case True
  with assms rnd_nonneg [of y] show ?thesis by simp
next
  case False
  with assms have xp: "0 < x" and yp: "0 < y" by simp_all
  then have nz: "x \<noteq> 0" "y \<noteq> 0" by simp_all
  define ex where "ex = max (exponent x) (- 1022)"
  define ey where "ey = max (exponent y) (- 1022)"
  from exponent_bounds(1) [OF nz(1)] exponent_bounds(2) [OF nz(2)] assms xp yp
  have "pow2 (exponent x) < pow2 (exponent y + 1)" by simp
  then have "exponent x < exponent y + 1" by (simp only: pow2_less_iff)
  then have le: "ex \<le> ey" by (simp add: ex_def ey_def)
  show ?thesis
  proof (cases "ex = ey")
    case True
    from assms(2) have "x / pow2 (ey - 52) \<le> y / pow2 (ey - 52)"
      using pow2_pos [of "ey - 52"] by (simp add: divide_right_mono)
    then have "roundEven (x / pow2 (ey - 52)) \<le> roundEven (y / pow2 (ey - 52))"
      by (rule roundEven_mono)
    then show ?thesis
      unfolding rnd_eq [OF nz(1)] rnd_eq [OF nz(2)] ex_def [symmetric] ey_def [symmetric] True
      using pow2_pos [of "ey - 52"] by simp
  next
    case False
    with le have lt: "ex < ey" by simp
    then have eyE: "ey = exponent y" by (simp add: ey_def ex_def max_def split: if_splits)
    have p53: "pow2 53 = of_int (2 ^ 53)" and p52: "pow2 52 = of_int (2 ^ 52)"
      by (simp_all add: pow2_def)
    have "x < pow2 (exponent x + 1)" using exponent_bounds(2) [OF nz(1)] xp by simp
    also have "\<dots> \<le> pow2 (ex + 1)" by (rule pow2_mono) (simp add: ex_def)
    also have "\<dots> = pow2 (ex - 52) * pow2 53" by (simp only: pow2_split53)
    finally have "x / pow2 (ex - 52) \<le> of_int (2 ^ 53)"
      unfolding p53 using pow2_pos [of "ex - 52"] by (simp add: field_simps)
    then have "roundEven (x / pow2 (ex - 52)) \<le> 2 ^ 53" by (rule roundEven_le_int)
    then have "real_of_int (roundEven (x / pow2 (ex - 52))) \<le> of_int (2 ^ 53)"
      by (simp only: of_int_le_iff)
    then have "rnd x \<le> pow2 (ex - 52) * pow2 53"
      unfolding rnd_eq [OF nz(1)] ex_def [symmetric] p53
      using pow2_pos [of "ex - 52"] by (simp only: mult_le_cancel_left_pos)
    also have "\<dots> = pow2 (ex + 1)" by (simp only: pow2_split53)
    also have "\<dots> \<le> pow2 ey" using lt by (intro pow2_mono) simp
    finally have a: "rnd x \<le> pow2 ey" .
    have "pow2 ey \<le> y" using exponent_bounds(1) [OF nz(2)] yp unfolding eyE by simp
    moreover have "pow2 ey = pow2 (ey - 52) * pow2 52" by (simp only: pow2_split52)
    ultimately have "of_int (2 ^ 52) \<le> y / pow2 (ey - 52)"
      unfolding p52 using pow2_pos [of "ey - 52"] by (simp add: field_simps)
    then have "2 ^ 52 \<le> roundEven (y / pow2 (ey - 52))" by (rule roundEven_ge_int)
    then have "of_int (2 ^ 52) \<le> real_of_int (roundEven (y / pow2 (ey - 52)))"
      by (simp only: of_int_le_iff)
    then have "pow2 (ey - 52) * pow2 52 \<le> rnd y"
      unfolding rnd_eq [OF nz(2)] ey_def [symmetric] p52
      using pow2_pos [of "ey - 52"] by (simp only: mult_le_cancel_left_pos)
    then have "pow2 ey \<le> rnd y" by (simp only: pow2_split52)
    with a show ?thesis by simp
  qed
qed

lemma fl_Fin: "\<bar>rnd x\<bar> < pow2 1024 \<Longrightarrow> fl x = Fin (rnd x)"
  by (auto simp: fl_def Let_def)

lemma fl_0 [simp]: "fl 0 = Fin 0"
  by (simp add: fl_def not_le)

text \<open>A number with a 53-bit significand and an exponent in range is left as it is.\<close>

lemma fl_exact:
  assumes "x = of_int m * pow2 k" "\<bar>m\<bar> < 2 ^ 53" "- 1074 \<le> k" "k \<le> 971"
  shows "fl x = Fin x"
proof -
  have r: "rnd x = x" unfolding assms(1) using assms(2,3) by (rule rnd_exact)
  have p53: "pow2 53 = 2 ^ 53" by (simp add: pow2_def)
  from assms(2) have "real_of_int \<bar>m\<bar> < 2 ^ 53" by (metis of_int_less_numeral_power_cancel_iff)
  then have "\<bar>x\<bar> < pow2 53 * pow2 k"
    unfolding assms(1) p53 abs_mult using pow2_pos [of k] by simp
  also have "\<dots> = pow2 (53 + k)" by (simp only: pow2_add)
  also have "\<dots> \<le> pow2 1024" using assms(4) by (intro pow2_mono) simp
  finally have "\<bar>rnd x\<bar> < pow2 1024" unfolding r .
  from fl_Fin [OF this] r show ?thesis by simp
qed

lemma fl_int:
  assumes "\<bar>n\<bar> \<le> 2 ^ 53"
  shows "fl (of_int n) = Fin (of_int n)"
proof -
  have r: "rnd (of_int n) = of_int n" using assms by (rule rnd_int_exact)
  from assms have "real_of_int \<bar>n\<bar> \<le> 2 ^ 53" by (metis of_int_le_numeral_power_cancel_iff)
  also have "(2 :: real) ^ 53 < pow2 1024" by (simp add: pow2_def)
  finally have "\<bar>rnd (real_of_int n)\<bar> < pow2 1024" unfolding r by simp
  from fl_Fin [OF this] r show ?thesis by simp
qed

lemma fl_nat: "n \<le> 2 ^ 53 \<Longrightarrow> fl (real n) = Fin (real n)"
  using fl_int [of "int n"] by simp

text \<open>Evaluating a rounding, given the binary exponent of the argument.\<close>

lemma fl_eval:
  assumes "pow2 e \<le> \<bar>x\<bar>" "\<bar>x\<bar> < pow2 (e + 1)" "- 1022 \<le> e"
    and "pow2 (e - 52) * of_int (roundEven (x / pow2 (e - 52))) = r" "\<bar>r\<bar> < pow2 1024"
  shows "fl x = Fin r"
proof -
  from rnd_eval [OF assms(1-3)] assms(4) have "rnd x = r" by simp
  with assms(5) fl_Fin [of x] show ?thesis by simp
qed

text \<open>Rounding keeps the order of non-negative numbers.\<close>

lemma fl_le:
  assumes "0 \<le> x" "x \<le> y" "rnd y = c" "c < pow2 1024"
  shows "\<exists>r. fl x = Fin r \<and> 0 \<le> r \<and> r \<le> c"
proof -
  from rnd_mono_nonneg [OF assms(1,2)] assms(3) have "rnd x \<le> c" by simp
  moreover from rnd_nonneg [OF assms(1)] have "0 \<le> rnd x" .
  ultimately have "\<bar>rnd x\<bar> < pow2 1024" using assms(4) by simp
  from fl_Fin [OF this] \<open>rnd x \<le> c\<close> \<open>0 \<le> rnd x\<close> show ?thesis by simp
qed

lemma rnd_value:
  assumes "pow2 e \<le> \<bar>x\<bar>" "\<bar>x\<bar> < pow2 (e + 1)" "- 1022 \<le> e"
    and "pow2 (e - 52) * of_int (roundEven (x / pow2 (e - 52))) = r"
  shows "rnd x = r"
  using rnd_eval [OF assms(1-3)] assms(4) by simp

text \<open>Rounding an integer multiple of a power of two gives such a multiple.\<close>

lemma rnd_multiple:
  "\<exists>m. rnd (of_int n * 2 ^ j) = of_int m * 2 ^ j"
proof (cases "n = 0")
  case True
  then show ?thesis by (intro exI [of _ 0]) simp
next
  case False
  define x :: real where "x = of_int n * 2 ^ j"
  from False have nz: "x \<noteq> 0" by (simp add: x_def)
  define e where "e = max (exponent x) (- 1022)"
  have pj: "(2 :: real) ^ j = pow2 (int j)" by (simp add: pow2_def)
  show ?thesis
  proof (cases "int j \<le> e - 52")
    case True
    define d where "d = nat (e - 52 - int j)"
    from True have "e - 52 = int j + int d" by (simp add: d_def)
    then have "pow2 (e - 52) = pow2 (int j) * pow2 (int d)" by (simp only: pow2_add)
    also have "pow2 (int d) = of_int (2 ^ d)" by (simp add: pow2_def)
    finally have "rnd x = of_int (2 ^ d * roundEven (x / pow2 (e - 52))) * 2 ^ j"
      unfolding rnd_eq [OF nz] e_def [symmetric] pj by simp
    then show ?thesis unfolding x_def by blast
  next
    case False
    define d where "d = nat (int j - (e - 52))"
    from False have "int j = (e - 52) + int d" by (simp add: d_def)
    then have "pow2 (int j) = pow2 (e - 52) * pow2 (int d)" by (simp only: pow2_add)
    also have "pow2 (int d) = of_int (2 ^ d)" by (simp add: pow2_def)
    finally have pk: "pow2 (int j) = pow2 (e - 52) * of_int (2 ^ d)" .
    have "x / pow2 (e - 52) = of_int (n * 2 ^ d)"
      unfolding x_def pj pk by simp
    then have "roundEven (x / pow2 (e - 52)) = n * 2 ^ d" by (simp only: roundEven_of_int)
    then have "rnd x = pow2 (e - 52) * of_int (n * 2 ^ d)"
      unfolding rnd_eq [OF nz] e_def by simp
    also have "\<dots> = of_int n * 2 ^ j" unfolding pj pk by simp
    finally show ?thesis unfolding x_def by blast
  qed
qed

lemma fl_integer: "x \<in> \<int> \<Longrightarrow> fl x = Fin r \<Longrightarrow> r \<in> \<int>"
proof -
  assume "x \<in> \<int>" and f: "fl x = Fin r"
  then obtain n where "x = of_int n * 2 ^ 0" by (auto elim: Ints_cases)
  with rnd_multiple [of n 0] obtain m where "rnd x = of_int m" by auto
  moreover from f have "r = rnd x" by (auto simp: fl_def Let_def split: if_splits)
  ultimately show "r \<in> \<int>" by simp
qed

lemma fl_times4: "x \<in> \<int> \<Longrightarrow> fl (x * 4) = Fin r \<Longrightarrow> \<exists>m. r = of_int m * 4"
proof -
  assume "x \<in> \<int>" and f: "fl (x * 4) = Fin r"
  then obtain n where "x * 4 = of_int n * 2 ^ 2" by (auto elim: Ints_cases)
  with rnd_multiple [of n 2] obtain m where "rnd (x * 4) = of_int m * 4" by auto
  moreover from f have "r = rnd (x * 4)" by (auto simp: fl_def Let_def split: if_splits)
  ultimately show ?thesis by blast
qed

text \<open>Rounding moves a number by at most half a unit in the last place.\<close>

lemma roundEven_error: "\<bar>of_int (roundEven t) - t\<bar> \<le> 1 / 2"
proof -
  define f where "f = real_of_int \<lfloor>t\<rfloor>"
  have b: "f \<le> t" "t < f + 1" unfolding f_def by linarith+
  consider (lo) "t - f < 1 / 2" | (hi) "1 / 2 < t - f" | (tie) "t - f = 1 / 2" by linarith
  then show ?thesis
  proof cases
    case lo
    then have "real_of_int (roundEven t) = f" by (simp add: roundEven_def Let_def f_def)
    with b lo show ?thesis by simp
  next
    case hi
    then have "real_of_int (roundEven t) = f + 1" by (simp add: roundEven_def Let_def f_def)
    with b hi show ?thesis by simp
  next
    case tie
    then have "real_of_int (roundEven t) = f \<or> real_of_int (roundEven t) = f + 1"
      by (simp add: roundEven_def Let_def f_def)
    with b tie show ?thesis by auto
  qed
qed

lemma rnd_error:
  assumes "\<bar>x\<bar> \<le> c" "pow2 (- 1022) \<le> c"
  shows "\<bar>rnd x - x\<bar> \<le> c * pow2 (- 53)"
proof (cases "x = 0")
  case True
  from assms(1) have "0 \<le> c" by simp
  then show ?thesis using True by simp
next
  case False
  define e where "e = max (exponent x) (- 1022)"
  define q where "q = pow2 (e - 52)"
  have q0: "0 < q" by (simp add: q_def)
  have r: "rnd x = q * of_int (roundEven (x / q))"
    unfolding q_def e_def by (rule rnd_eq [OF False])
  have "rnd x - x = q * (of_int (roundEven (x / q)) - x / q)"
    using q0 unfolding r by (simp add: algebra_simps)
  then have "\<bar>rnd x - x\<bar> = q * \<bar>of_int (roundEven (x / q)) - x / q\<bar>"
    using q0 by (simp add: abs_mult)
  also have "\<dots> \<le> q * (1 / 2)"
    using roundEven_error [of "x / q"] q0 by (intro mult_left_mono) simp_all
  also have "q * (1 / 2) = pow2 e * pow2 (- 53)"
  proof -
    have "e - 52 = e + (- 53) + 1" by simp
    then have "q = pow2 e * pow2 (- 53) * pow2 1" unfolding q_def by (simp only: pow2_add)
    then show ?thesis by (simp add: pow2_1)
  qed
  also have "\<dots> \<le> c * pow2 (- 53)"
  proof -
    have "pow2 e \<le> c"
    proof (cases "- 1022 \<le> exponent x")
      case True
      then have "e = exponent x" by (simp add: e_def)
      with exponent_bounds(1) [OF False] assms(1) show ?thesis by simp
    next
      case False
      then have "e = - 1022" by (simp add: e_def)
      with assms(2) show ?thesis by simp
    qed
    then show ?thesis by (intro mult_right_mono) simp_all
  qed
  finally show ?thesis .
qed

lemma fl_Fin_D: "fl x = Fin r \<Longrightarrow> r = rnd x"
  by (auto simp: fl_def Let_def split: if_splits)

text \<open>A result of magnitude \<open>2 ^ 1024\<close> or more is an infinity.\<close>

lemma fl_overflow:
  assumes "pow2 1024 \<le> x"
  shows "fl x = PInf"
proof -
  have "rnd (of_int 1 * pow2 1024) = of_int 1 * pow2 1024"
    by (rule rnd_exact) simp_all
  then have e: "rnd (pow2 1024) = pow2 1024" by simp
  have "0 \<le> pow2 1024" by simp
  from rnd_mono_nonneg [OF this assms] e have "pow2 1024 \<le> rnd x" by simp
  then show ?thesis by (simp add: fl_def Let_def)
qed

text \<open>The comparison is a strict order on the numbers.\<close>

lemma jless_irrefl: "\<not> jless x x"
  by (cases x) simp_all

lemma jless_trans: "jless x y \<Longrightarrow> jless y z \<Longrightarrow> jless x z"
  by (cases x; cases y; cases z) simp_all

lemma jless_asym: "jless x y \<Longrightarrow> \<not> jless y x"
  by (cases x; cases y) simp_all

subsection \<open>The matcher\<close>

text \<open>The loop over the indices is a fold over the pairs of components.\<close>

lemma distLoop_foldl:
  assumes "length a = length b"
  shows "i \<le> length a \<Longrightarrow>
         distLoop a b i acc
         = foldl (\<lambda>s (x, y). jadd s (jmul (jsub (toNumber x) (toNumber y))
                                            (jsub (toNumber x) (toNumber y))))
                 acc (drop i (zip a b))"
proof (induction "length a - i" arbitrary: i acc)
  case 0
  then have "i = length a" by simp
  then show ?case using assms by (subst distLoop.simps) simp
next
  case (Suc n)
  then have lt: "i < length a" by simp
  from Suc have n: "n = length a - (i + 1)" by simp
  from lt have le: "i + 1 \<le> length a" by simp
  from lt assms have lz: "i < length (zip a b)" by simp
  have d: "drop i (zip a b) = (a ! i, b ! i) # drop (i + 1) (zip a b)"
    using Cons_nth_drop_Suc [OF lz] lt assms by simp
  have "distLoop a b i acc
        = distLoop a b (i + 1)
            (jadd acc (jmul (jsub (toNumber (a ! i)) (toNumber (b ! i)))
                            (jsub (toNumber (a ! i)) (toNumber (b ! i)))))"
    using lt assms by (subst distLoop.simps) (simp add: Let_def)
  also note Suc.hyps(1) [OF n le]
  finally show ?case unfolding d by simp
qed

lemma calculateSignatureDistance_euclidean:
  "length a = length b \<Longrightarrow> calculateSignatureDistance (Some a) (Some b) = euclidean a b"
  using distLoop_foldl [of a b 0 "Fin 0"]
  by (simp add: calculateSignatureDistance_def euclidean_def)

lemma calculateSignatureDistance_mismatch:
  "calculateSignatureDistance None s = Fin 1"
  "calculateSignatureDistance s None = Fin 1"
  "length a \<noteq> length b \<Longrightarrow> calculateSignatureDistance (Some a) (Some b) = Fin 1"
  by (simp_all add: calculateSignatureDistance_def split: option.splits)

lemma calculateSignatureDistance_below:
  "jless (calculateSignatureDistance cur desc) (Fin (1/2)) \<longleftrightarrow>
     (\<exists>q d. cur = Some q \<and> desc = Some d \<and> length q = length d
            \<and> jless (euclidean q d) (Fin (1/2)))"
proof (cases cur)
  case None
  then show ?thesis by (simp add: calculateSignatureDistance_mismatch)
next
  case q: (Some q)
  show ?thesis
  proof (cases desc)
    case None
    then show ?thesis by (simp add: calculateSignatureDistance_mismatch)
  next
    case (Some d)
    then show ?thesis using q
      by (cases "length q = length d")
         (simp_all add: calculateSignatureDistance_mismatch calculateSignatureDistance_euclidean)
  qed
qed

text \<open>What the loop of \<open>findFaceMatch\<close> leaves in \<open>bestMatch\<close>.\<close>

lemma matchLoop_None:
  "matchLoop cur fs bm d = None \<longleftrightarrow>
     bm = None \<and> (\<forall>f\<in>set fs. \<not> jless (calculateSignatureDistance cur (descriptor f)) d)"
proof (induction fs arbitrary: bm d)
  case Nil
  then show ?case by simp
next
  case (Cons f fs)
  show ?case
    using Cons.IH [of "Some f" "calculateSignatureDistance cur (descriptor f)"] Cons.IH [of bm d]
    by (auto simp: Let_def)
qed

lemma matchLoop_Some:
  "matchLoop cur fs bm d = Some f \<Longrightarrow>
     (bm = Some f \<and> (\<forall>g\<in>set fs. \<not> jless (calculateSignatureDistance cur (descriptor g)) d))
   \<or> (f \<in> set fs \<and> jless (calculateSignatureDistance cur (descriptor f)) d
       \<and> (\<forall>g\<in>set fs. \<not> jless (calculateSignatureDistance cur (descriptor g))
                                  (calculateSignatureDistance cur (descriptor f))))"
proof (induction fs arbitrary: bm d)
  case Nil
  then show ?case by simp
next
  case (Cons h fs)
  let ?D = "\<lambda>g. calculateSignatureDistance cur (descriptor g)"
  show ?case
  proof (cases "jless (?D h) d")
    case True
    then have "matchLoop cur fs (Some h) (?D h) = Some f"
      using Cons.prems by (simp add: Let_def)
    from Cons.IH [OF this] show ?thesis
    proof
      assume "Some h = Some f \<and> (\<forall>g\<in>set fs. \<not> jless (?D g) (?D h))"
      then show ?thesis using True by (auto simp: jless_irrefl)
    next
      assume a: "f \<in> set fs \<and> jless (?D f) (?D h) \<and> (\<forall>g\<in>set fs. \<not> jless (?D g) (?D f))"
      then have "jless (?D f) d" using True jless_trans by blast
      moreover from a have "\<not> jless (?D h) (?D f)" using jless_asym by blast
      ultimately show ?thesis using a by auto
    qed
  next
    case False
    then have "matchLoop cur fs bm d = Some f"
      using Cons.prems by (simp add: Let_def)
    from Cons.IH [OF this] show ?thesis
    proof
      assume "bm = Some f \<and> (\<forall>g\<in>set fs. \<not> jless (?D g) d)"
      then show ?thesis using False by auto
    next
      assume a: "f \<in> set fs \<and> jless (?D f) d \<and> (\<forall>g\<in>set fs. \<not> jless (?D g) (?D f))"
      then have "\<not> jless (?D h) (?D f)" using False jless_trans by blast
      then show ?thesis using a by auto
    qed
  qed
qed

lemma findFaceMatch_Some:
  assumes "findFaceMatch faces cur = Some f"
  shows "f \<in> set faces \<and> jless (calculateSignatureDistance cur (descriptor f)) (Fin (1/2))
       \<and> (\<forall>g\<in>set faces. \<not> jless (calculateSignatureDistance cur (descriptor g))
                                  (calculateSignatureDistance cur (descriptor f)))"
proof -
  from assms have "matchLoop cur faces None (Fin (1/2)) = Some f"
    by (simp add: findFaceMatch_def split: if_splits)
  from matchLoop_Some [OF this] show ?thesis by simp
qed

lemma findFaceMatch_None:
  "findFaceMatch faces cur = None \<longleftrightarrow>
     (\<forall>f\<in>set faces. \<not> jless (calculateSignatureDistance cur (descriptor f)) (Fin (1/2)))"
  using matchLoop_None [of cur faces None "Fin (1/2)"]
  by (cases faces) (simp_all add: findFaceMatch_def)

text \<open>Some roundings that the examples need.\<close>

lemma fl_quarter: "fl (1/4) = Fin (1/4)"
  using fl_exact [of "1/4" 1 "- 2"] by (simp add: pow2_def)

lemma fl_sixteenth: "fl (1/16) = Fin (1/16)"
  using fl_exact [of "1/16" 1 "- 4"] by (simp add: pow2_def)

lemma fl_tiny: "fl (1 / 1099511627776) = Fin (1 / 1099511627776)"
  using fl_exact [of "1 / 2 ^ 40" 1 "- 40"] by (simp add: pow2_def)

lemma fl_tiny_square:
  "fl (1 / 1208925819614629174706176) = Fin (1 / 1208925819614629174706176)"
  using fl_exact [of "1 / 2 ^ 80" 1 "- 80"] by (simp add: pow2_def)

text \<open>The sum \<open>1/16 + 2 ^ - 80\<close> needs 77 bits; a double keeps 53 of them.\<close>

lemma fl_absorbed:
  "fl (75557863725914323419137 / 1208925819614629174706176) = Fin (1/16)"
  by (rule fl_eval [of "- 4"]) (simp_all add: pow2_def roundEven_def Let_def)

lemma sqrt_sixteenth: "sqrt (1/16) = 1/4"
  using real_sqrt_abs [of "1/4"] by (simp add: power2_eq_square)

lemma sqrt25: "sqrt 25 = 5"
  using real_sqrt_abs [of 5] by simp

lemma euclidean_absorbed:
  "euclidean [Num (Fin (1/4)), Num (Fin (1 / 2 ^ 40))] [Num (Fin 0), Num (Fin 0)] = Fin (1/4)"
  by (simp add: euclidean_def jsub_def fl_quarter fl_sixteenth fl_tiny fl_tiny_square
        fl_absorbed sqrt_sixteenth)

lemma euclidean_quarter:
  "euclidean [Num (Fin (1/4)), Num (Fin (1 / 2 ^ 40))] [Num (Fin 0), Num (Fin (1 / 2 ^ 40))]
   = Fin (1/4)"
  by (simp add: euclidean_def jsub_def fl_quarter fl_sixteenth sqrt_sixteenth)

lemma euclidean_3_4:
  "euclidean [Num (Fin 3), Num (Fin 0)] [Num (Fin 0), Num (Fin 4)] = Fin 5"
proof -
  have i: "fl 3 = Fin 3" "fl (- 4) = Fin (- 4)" "fl 9 = Fin 9" "fl 16 = Fin 16"
    "fl 25 = Fin 25" "fl 5 = Fin 5"
    using fl_int [of 3] fl_int [of "- 4"] fl_int [of 9] fl_int [of 16] fl_int [of 25]
      fl_int [of 5]
    by simp_all
  show ?thesis by (simp add: euclidean_def jsub_def i sqrt25)
qed

lemma euclidean_zeros:
  "euclidean (replicate n (Num (Fin 0))) (replicate n (Num (Fin 0))) = Fin 0"
proof -
  have "foldl (\<lambda>s (x, y). jadd s (jmul (jsub (toNumber x) (toNumber y))
                                        (jsub (toNumber x) (toNumber y))))
              (Fin 0) (replicate n (Num (Fin 0), Num (Fin 0))) = Fin 0"
    by (induction n) (simp_all add: jsub_def)
  then show ?thesis by (simp add: euclidean_def zip_replicate)
qed

text \<open>The doubles nearest to 0.14 and 0.48: the computed sum of their squares is \<open>1/4\<close>.\<close>

lemma difference_014: "jsub (Fin (1261007895663739 / 9007199254740992)) (Fin 0) = Fin (1261007895663739 / 9007199254740992)"
  unfolding jsub_def jneg.simps jadd.simps
  by (rule fl_eval [of "- 3"]) (simp_all add: pow2_def roundEven_def Let_def)

lemma square_014: "jmul (Fin (1261007895663739 / 9007199254740992)) (Fin (1261007895663739 / 9007199254740992)) = Fin (5649315372573551 / 288230376151711744)"
  unfolding jmul.simps
  by (rule fl_eval [of "- 6"]) (simp_all add: pow2_def roundEven_def Let_def)

lemma sum_014: "jadd (Fin 0) (Fin (5649315372573551 / 288230376151711744)) = Fin (5649315372573551 / 288230376151711744)"
  unfolding jadd.simps
  by (rule fl_eval [of "- 6"]) (simp_all add: pow2_def roundEven_def Let_def)

lemma difference_048: "jsub (Fin (1080863910568919 / 2251799813685248)) (Fin 0) = Fin (1080863910568919 / 2251799813685248)"
  unfolding jsub_def jneg.simps jadd.simps
  by (rule fl_eval [of "- 2"]) (simp_all add: pow2_def roundEven_def Let_def)

lemma square_048: "jmul (Fin (1080863910568919 / 2251799813685248)) (Fin (1080863910568919 / 2251799813685248)) = Fin (4150517416584649 / 18014398509481984)"
  unfolding jmul.simps
  by (rule fl_eval [of "- 3"]) (simp_all add: pow2_def roundEven_def Let_def)

lemma sum_048: "jadd (Fin (5649315372573551 / 288230376151711744)) (Fin (4150517416584649 / 18014398509481984)) = Fin (1 / 4)"
  unfolding jadd.simps
  by (rule fl_eval [of "- 3"]) (simp_all add: pow2_def roundEven_def Let_def)

lemma sqrt_quarter: "sqrt (1/4) = 1/2"
  using real_sqrt_abs [of "1/2"] by (simp add: power2_eq_square)

lemma root_quarter: "jsqrt (Fin (1/4)) = Fin (1/2)"
  using fl_exact [of "1/2" 1 "- 1"] by (simp add: sqrt_quarter pow2_def)

lemma euclidean_half:
  "euclidean [Num (Fin (1261007895663739 / 9007199254740992)), Num (Fin (1080863910568919 / 2251799813685248))]
             [Num (Fin 0), Num (Fin 0)] = Fin (1/2)"
  by (simp add: euclidean_def difference_014 square_014 sum_014 difference_048 square_048
        sum_048 root_quarter del: jadd.simps jmul.simps jsqrt.simps)

text \<open>
  Large and small components: the square of \<open>2 ^ 600\<close> overflows and the distance is
  infinite; the square of \<open>2 ^ - 600\<close> underflows and the distance of two different
  descriptors is 0.
\<close>

lemma distance_overflows:
  "calculateSignatureDistance (Some [Num (Fin (2 ^ 600))]) (Some [Num (Fin 0)]) = PInf"
proof -
  have a: "fl (2 ^ 600) = Fin (2 ^ 600)"
    using fl_exact [of "2 ^ 600" 1 600] by (simp add: pow2_def)
  have "pow2 1024 \<le> 2 ^ 600 * 2 ^ 600"
    by (simp add: pow2_def)
  then have b: "fl (2 ^ 600 * 2 ^ 600) = PInf" by (rule fl_overflow)
  from a b show ?thesis
    by (simp add: calculateSignatureDistance_euclidean euclidean_def jsub_def)
qed

lemma distance_underflows:
  "calculateSignatureDistance (Some [Num (Fin (1 / 2 ^ 600))]) (Some [Num (Fin 0)]) = Fin 0"
proof -
  have a: "fl (1 / 2 ^ 600) = Fin (1 / 2 ^ 600)"
    using fl_exact [of "1 / 2 ^ 600" 1 "- 600"] by (simp add: pow2_def)
  have "rnd (1 / 2 ^ 600 * (1 / 2 ^ 600))
        = pow2 (- 1074) * of_int (roundEven (1 / 2 ^ 600 * (1 / 2 ^ 600) / pow2 (- 1074)))"
    by (rule rnd_eval_subnormal) (simp_all add: pow2_def)
  also have "\<dots> = 0" by (simp add: pow2_def roundEven_def Let_def)
  finally have b: "fl (1 / 2 ^ 600 * (1 / 2 ^ 600)) = Fin 0"
    by (simp add: fl_def not_le)
  from a b show ?thesis
    by (simp add: calculateSignatureDistance_euclidean euclidean_def jsub_def)
qed

text \<open>
  Claim C2 as stated fails. The components \<open>1/4\<close> and \<open>2 ^ - 40\<close> are doubles, and so
  are their squares, but the sum of the squares is not: the addition rounds it to
  \<open>1/16\<close>, and the function returns \<open>1/4\<close>, which is not the square root of the sum
  of the squared differences.
\<close>
theorem distance_not_exact_counterexample:
  "calculateSignatureDistance (Some [Num (Fin (1/4)), Num (Fin (1 / 2 ^ 40))])
                              (Some [Num (Fin 0), Num (Fin 0)]) = Fin (1/4)
   \<and> exactDistance [1/4, 1 / 2 ^ 40] [0, 0] \<noteq> 1/4"
proof
  show "calculateSignatureDistance (Some [Num (Fin (1/4)), Num (Fin (1 / 2 ^ 40))])
                                   (Some [Num (Fin 0), Num (Fin 0)]) = Fin (1/4)"
    using euclidean_absorbed by (simp add: calculateSignatureDistance_euclidean)
next
  have "exactDistance [1/4, 1 / 2 ^ 40] [0, 0] = sqrt (1/16 + 1 / 2 ^ 80)"
    by (simp add: exactDistance_def)
  moreover have "sqrt (1/16 + 1 / 2 ^ 80) \<noteq> sqrt (1/16)"
    by (simp only: real_sqrt_eq_iff) simp
  ultimately show "exactDistance [1/4, 1 / 2 ^ 40] [0, 0] \<noteq> 1/4"
    by (simp only: sqrt_sixteenth) simp
qed

text \<open>
  Claim C2, amended. On two descriptors of equal length the distance function of the
  matcher is the Euclidean formula as double arithmetic evaluates it: every difference,
  every square, the running sum in index order and the square root are rounded to a
  double. The result is neither normalised nor clipped: for \<open>[3, 0]\<close> and \<open>[0, 4]\<close> it is
  5. When a descriptor is absent or the lengths differ, the function raises nothing and
  returns 1, and \<open>findFaceMatch\<close> never returns an entry whose descriptor is absent or
  has another length than the query.
\<close>
theorem distance_is_rounded_euclidean_and_mismatch_disqualifies:
  "(length a = length b \<longrightarrow> calculateSignatureDistance (Some a) (Some b) = euclidean a b)
   \<and> calculateSignatureDistance (Some [Num (Fin 3), Num (Fin 0)])
                                (Some [Num (Fin 0), Num (Fin 4)]) = Fin 5
   \<and> calculateSignatureDistance None s = Fin 1
   \<and> calculateSignatureDistance s None = Fin 1
   \<and> (length u \<noteq> length v \<longrightarrow> calculateSignatureDistance (Some u) (Some v) = Fin 1)
   \<and> (findFaceMatch faces cur = Some f \<longrightarrow>
        (\<exists>u v. cur = Some u \<and> descriptor f = Some v \<and> length u = length v))"
proof -
  have "\<exists>u v. cur = Some u \<and> descriptor f = Some v \<and> length u = length v"
    if m: "findFaceMatch faces cur = Some f"
  proof -
    from findFaceMatch_Some [OF m]
    have "jless (calculateSignatureDistance cur (descriptor f)) (Fin (1/2))" by simp
    then show ?thesis unfolding calculateSignatureDistance_below by blast
  qed
  then show ?thesis
    by (simp add: calculateSignatureDistance_euclidean calculateSignatureDistance_mismatch
          euclidean_3_4)
qed

theorem distance_is_rounded_euclidean_and_mismatch_disqualifies_witness:
  "length [Num (Fin (1/4)), Num (Fin (1 / 2 ^ 40))] = length [Num (Fin 0), Num (Fin 0)]
   \<and> calculateSignatureDistance (Some [Num (Fin (1/4)), Num (Fin (1 / 2 ^ 40))])
                                (Some [Num (Fin 0), Num (Fin 0)])
     = euclidean [Num (Fin (1/4)), Num (Fin (1 / 2 ^ 40))] [Num (Fin 0), Num (Fin 0)]
   \<and> euclidean [Num (Fin (1/4)), Num (Fin (1 / 2 ^ 40))] [Num (Fin 0), Num (Fin 0)] = Fin (1/4)
   \<and> length [Num (Fin 0)] \<noteq> length ([] :: jsval list)
   \<and> calculateSignatureDistance (Some [Num (Fin 0)]) (Some []) = Fin 1
   \<and> findFaceMatch [\<lparr>face_id = Some ''1'', name = Some ''Alice'', savedAt = Some ''today'',
                       descriptor = Some [Num (Fin 0)]\<rparr>] (Some [Num (Fin 0)])
       = Some \<lparr>face_id = Some ''1'', name = Some ''Alice'', savedAt = Some ''today'',
                descriptor = Some [Num (Fin 0)]\<rparr>
   \<and> (\<exists>u v. Some [Num (Fin 0)] = Some u
         \<and> descriptor \<lparr>face_id = Some ''1'', name = Some ''Alice'', savedAt = Some ''today'',
                        descriptor = Some [Num (Fin 0)]\<rparr> = Some v
         \<and> length u = length v)"
proof -
  let ?f = "\<lparr>face_id = Some ''1'', name = Some ''Alice'', savedAt = Some ''today'',
             descriptor = Some [Num (Fin 0)]\<rparr>"
  have z: "euclidean [Num (Fin 0)] [Num (Fin 0)] = Fin 0"
    using euclidean_zeros [of 1] by simp
  have m: "findFaceMatch [?f] (Some [Num (Fin 0)]) = Some ?f"
    by (simp add: findFaceMatch_def calculateSignatureDistance_euclidean z)
  show ?thesis
    using distance_is_rounded_euclidean_and_mismatch_disqualifies
            [of "[Num (Fin (1/4)), Num (Fin (1 / 2 ^ 40))]" "[Num (Fin 0), Num (Fin 0)]"
                "None" "[Num (Fin 0)]" "[]" "[?f]" "Some [Num (Fin 0)]" ?f] m
      euclidean_absorbed
    by simp
qed

text \<open>
  Claim C1 as stated fails, in two ways. The registry holds \<open>A\<close>, with the descriptor
  \<open>[0, 0]\<close>, and then \<open>B\<close>, with the descriptor \<open>[0, 2 ^ - 40]\<close>; the query is
  \<open>[1/4, 2 ^ - 40]\<close>. The entry at minimum Euclidean distance is \<open>B\<close>, at \<open>1/4\<close>, and
  \<open>A\<close> is strictly farther; but the computed distance of both is \<open>1/4\<close>, and
  \<open>findFaceMatch\<close> returns \<open>A\<close>. And with the single entry \<open>A\<close> and the query made of the
  doubles nearest to 0.14 and 0.48, the Euclidean distance is strictly below 0.5, the
  computed distance is 0.5, and \<open>findFaceMatch\<close> returns no match.
\<close>
theorem nearest_entry_not_returned_counterexample:
  "findFaceMatch
     [\<lparr>face_id = Some ''1'', name = Some ''A'', savedAt = Some ''today'',
        descriptor = Some [Num (Fin 0), Num (Fin 0)]\<rparr>,
      \<lparr>face_id = Some ''2'', name = Some ''B'', savedAt = Some ''today'',
        descriptor = Some [Num (Fin 0), Num (Fin (1 / 2 ^ 40))]\<rparr>]
     (Some [Num (Fin (1/4)), Num (Fin (1 / 2 ^ 40))])
   = Some \<lparr>face_id = Some ''1'', name = Some ''A'', savedAt = Some ''today'',
            descriptor = Some [Num (Fin 0), Num (Fin 0)]\<rparr>
   \<and> exactDistance [1/4, 1 / 2 ^ 40] [0, 1 / 2 ^ 40] < exactDistance [1/4, 1 / 2 ^ 40] [0, 0]
   \<and> exactDistance [1/4, 1 / 2 ^ 40] [0, 1 / 2 ^ 40] < 1/2
   \<and> findFaceMatch
       [\<lparr>face_id = Some ''1'', name = Some ''A'', savedAt = Some ''today'',
          descriptor = Some [Num (Fin 0), Num (Fin 0)]\<rparr>]
       (Some [Num (Fin (1261007895663739 / 9007199254740992)), Num (Fin (1080863910568919 / 2251799813685248))])
     = None
   \<and> exactDistance [(1261007895663739 / 9007199254740992), (1080863910568919 / 2251799813685248)] [0, 0] < 1/2"
proof (intro conjI)
  show "findFaceMatch
       [\<lparr>face_id = Some ''1'', name = Some ''A'', savedAt = Some ''today'',
          descriptor = Some [Num (Fin 0), Num (Fin 0)]\<rparr>]
       (Some [Num (Fin (1261007895663739 / 9007199254740992)), Num (Fin (1080863910568919 / 2251799813685248))])
     = None"
    by (simp add: findFaceMatch_def calculateSignatureDistance_euclidean euclidean_half)
next
  have "((1261007895663739 / 9007199254740992) - 0) * ((1261007895663739 / 9007199254740992) - 0)
        + ((1080863910568919 / 2251799813685248) - 0) * ((1080863910568919 / 2251799813685248) - 0) < (1/4 :: real)"
    by simp
  then have "sqrt (((1261007895663739 / 9007199254740992) - 0) * ((1261007895663739 / 9007199254740992) - 0)
        + ((1080863910568919 / 2251799813685248) - 0) * ((1080863910568919 / 2251799813685248) - 0)) < sqrt (1/4)"
    by (simp only: real_sqrt_less_iff)
  then show "exactDistance [(1261007895663739 / 9007199254740992), (1080863910568919 / 2251799813685248)] [0, 0] < 1/2"
    unfolding sqrt_quarter by (simp add: exactDistance_def)
next
  show "findFaceMatch
     [\<lparr>face_id = Some ''1'', name = Some ''A'', savedAt = Some ''today'',
        descriptor = Some [Num (Fin 0), Num (Fin 0)]\<rparr>,
      \<lparr>face_id = Some ''2'', name = Some ''B'', savedAt = Some ''today'',
        descriptor = Some [Num (Fin 0), Num (Fin (1 / 2 ^ 40))]\<rparr>]
     (Some [Num (Fin (1/4)), Num (Fin (1 / 2 ^ 40))])
   = Some \<lparr>face_id = Some ''1'', name = Some ''A'', savedAt = Some ''today'',
            descriptor = Some [Num (Fin 0), Num (Fin 0)]\<rparr>"
    using euclidean_absorbed euclidean_quarter
    by (simp add: findFaceMatch_def calculateSignatureDistance_euclidean)
next
  show "exactDistance [1/4, 1 / 2 ^ 40] [0, 1 / 2 ^ 40] < exactDistance [1/4, 1 / 2 ^ 40] [0, 0]"
    by (simp add: exactDistance_def)
next
  have "exactDistance [1/4, 1 / 2 ^ 40] [0, 1 / 2 ^ 40] = sqrt (1/16)"
    by (simp add: exactDistance_def)
  then show "exactDistance [1/4, 1 / 2 ^ 40] [0, 1 / 2 ^ 40] < 1/2"
    by (simp only: sqrt_sixteenth)
qed

text \<open>
  Claim C1, amended. The distance is the Euclidean formula as double arithmetic
  evaluates it, taken against the entries whose descriptor is present and has the
  length of the query. \<open>findFaceMatch\<close> returns no match exactly when no such entry
  has a distance strictly below 0.5, which includes the empty registry, and always when
  the query is absent; when it returns an entry, that entry is in the registry, its
  descriptor has the length of the query, its distance is strictly below 0.5 and no
  such entry has a strictly smaller distance. With a single entry named Alice whose
  descriptor is 128 zeros, the all-zeros query returns that entry, at distance 0.
\<close>
theorem findFaceMatch_simple_nearest:
  "(findFaceMatch faces (Some q) = None \<longleftrightarrow>
      (\<forall>g\<in>set faces. \<forall>e. descriptor g = Some e \<and> length e = length q \<longrightarrow>
          \<not> jless (euclidean q e) (Fin (1/2))))
   \<and> findFaceMatch [] cur = None
   \<and> findFaceMatch faces None = None
   \<and> (findFaceMatch faces (Some q) = Some f \<longrightarrow>
        f \<in> set faces
        \<and> (\<exists>d. descriptor f = Some d \<and> length d = length q
               \<and> jless (euclidean q d) (Fin (1/2))
               \<and> (\<forall>g\<in>set faces. \<forall>e. descriptor g = Some e \<and> length e = length q \<longrightarrow>
                      \<not> jless (euclidean q e) (euclidean q d))))
   \<and> (name al = Some ''Alice'' \<and> descriptor al = Some (replicate 128 (Num (Fin 0))) \<longrightarrow>
        findFaceMatch [al] (Some (replicate 128 (Num (Fin 0)))) = Some al
        \<and> calculateSignatureDistance (Some (replicate 128 (Num (Fin 0)))) (descriptor al) = Fin 0)"
proof (intro conjI impI)
  show "findFaceMatch faces (Some q) = None \<longleftrightarrow>
      (\<forall>g\<in>set faces. \<forall>e. descriptor g = Some e \<and> length e = length q \<longrightarrow>
          \<not> jless (euclidean q e) (Fin (1/2)))"
    unfolding findFaceMatch_None calculateSignatureDistance_below by auto
next
  show "findFaceMatch [] cur = None" by (simp add: findFaceMatch_def)
next
  show "findFaceMatch faces None = None"
    unfolding findFaceMatch_None by (simp add: calculateSignatureDistance_mismatch)
next
  assume m: "findFaceMatch faces (Some q) = Some f"
  from findFaceMatch_Some [OF m] show "f \<in> set faces" by simp
  from findFaceMatch_Some [OF m]
  have lt: "jless (calculateSignatureDistance (Some q) (descriptor f)) (Fin (1/2))"
    and mn: "\<forall>g\<in>set faces. \<not> jless (calculateSignatureDistance (Some q) (descriptor g))
                                   (calculateSignatureDistance (Some q) (descriptor f))"
    by simp_all
  from lt obtain d where d: "descriptor f = Some d" "length q = length d"
    "jless (euclidean q d) (Fin (1/2))"
    unfolding calculateSignatureDistance_below by auto
  have "\<not> jless (euclidean q e) (euclidean q d)"
    if g: "g \<in> set faces" "descriptor g = Some e" "length e = length q" for g e
    using mn g d by (auto simp: calculateSignatureDistance_euclidean)
  with d show "\<exists>d. descriptor f = Some d \<and> length d = length q
               \<and> jless (euclidean q d) (Fin (1/2))
               \<and> (\<forall>g\<in>set faces. \<forall>e. descriptor g = Some e \<and> length e = length q \<longrightarrow>
                      \<not> jless (euclidean q e) (euclidean q d))"
    by auto
next
  assume al: "name al = Some ''Alice'' \<and> descriptor al = Some (replicate 128 (Num (Fin 0)))"
  then show d: "calculateSignatureDistance (Some (replicate 128 (Num (Fin 0)))) (descriptor al) = Fin 0"
    by (simp add: calculateSignatureDistance_euclidean euclidean_zeros)
  then show "findFaceMatch [al] (Some (replicate 128 (Num (Fin 0)))) = Some al"
    by (simp add: findFaceMatch_def)
qed

theorem findFaceMatch_simple_nearest_witness:
  "findFaceMatch [\<lparr>face_id = Some ''1'', name = Some ''Alice'', savedAt = Some ''today'',
                    descriptor = Some (replicate 128 (Num (Fin 0)))\<rparr>]
                 (Some (replicate 128 (Num (Fin 0))))
     = Some \<lparr>face_id = Some ''1'', name = Some ''Alice'', savedAt = Some ''today'',
              descriptor = Some (replicate 128 (Num (Fin 0)))\<rparr>
   \<and> jless (euclidean (replicate 128 (Num (Fin 0))) (replicate 128 (Num (Fin 0)))) (Fin (1/2))
   \<and> calculateSignatureDistance (Some (replicate 128 (Num (Fin 0))))
                                (Some (replicate 128 (Num (Fin 0)))) = Fin 0
   \<and> findFaceMatch [] (Some (replicate 128 (Num (Fin 0)))) = None"
proof -
  let ?z = "replicate 128 (Num (Fin 0))"
  let ?f = "\<lparr>face_id = Some ''1'', name = Some ''Alice'', savedAt = Some ''today'',
             descriptor = Some ?z\<rparr>"
  have e: "euclidean ?z ?z = Fin 0" by (rule euclidean_zeros)
  show ?thesis
    using findFaceMatch_simple_nearest [of "[?f]" ?z "Some ?z" ?f ?f] e
    by simp
qed

subsection \<open>The motion detector\<close>

lemma mult16_cases:
  fixes i j :: nat
  assumes "16 dvd j" "16 dvd i" "i \<le> j"
  shows "j = i \<or> i + 16 \<le> j"
proof -
  from assms obtain a b where ab: "j = 16 * a" "i = 16 * b" unfolding dvd_def by blast
  with assms(3) have "b \<le> a" by simp
  then have "a = b \<or> b + 1 \<le> a" by auto
  with ab show ?thesis by auto
qed

lemma loop_cond: "int i < int n - 3 \<longleftrightarrow> i + 3 < n"
  by auto

lemma div_gt:
  fixes i n :: nat
  assumes "16 dvd i" "4 dvd n" "i + 3 < n"
  shows "i div 16 < (n + 12) div 16"
proof -
  from assms obtain a b where ab: "i = 16 * a" "n = 4 * b" unfolding dvd_def by blast
  with assms(3) have "(a + 1) * 16 \<le> n + 12" by simp
  then have "a + 1 \<le> (n + 12) div 16" by (simp only: less_eq_div_iff_mult_less_eq [OF zero_less_numeral])
  with ab show ?thesis by simp
qed

lemma div_le:
  fixes i n :: nat
  assumes "16 dvd i" "\<not> i + 3 < n"
  shows "(n + 12) div 16 \<le> i div 16"
proof -
  from assms obtain a where ab: "i = 16 * a" unfolding dvd_def by blast
  with assms(2) have "n + 12 < (a + 1) * 16" by simp
  then have "(n + 12) div 16 < a + 1" by (simp only: div_less_iff_less_mult [OF zero_less_numeral])
  with ab show ?thesis by simp
qed


lemma motionLoop_count:
  "motionLoop c p s n i m = m + length (filter (changed c p s) (sampledFrom n i))"
proof (induction n i arbitrary: m rule: sampledFrom.induct)
  case (1 n i)
  show ?case
  proof (cases "int i < int n - 3")
    case True
    have ml: "motionLoop c p s n i m
              = motionLoop c p s n (i + 16) (if changed c p s i then m + 1 else m)"
      using True by (subst motionLoop.simps) (simp add: Let_def changed_def)
    have sf: "sampledFrom n i = i # sampledFrom n (i + 16)"
      using True by (subst sampledFrom.simps) simp
    show ?thesis
      unfolding ml sf using "1.IH" [OF True] by simp
  next
    case False
    then show ?thesis
      by (subst motionLoop.simps, subst sampledFrom.simps) simp
  qed
qed

text \<open>
  The loop visits the byte offsets that are multiples of 16 and leave room for a whole
  pixel, that is every fourth pixel, each once.
\<close>

lemma sampledFrom_set:
  "16 dvd i \<Longrightarrow> set (sampledFrom n i) = {j. 16 dvd j \<and> i \<le> j \<and> j + 3 < n}"
proof (induction n i rule: sampledFrom.induct)
  case (1 n i)
  show ?case
  proof (cases "int i < int n - 3")
    case True
    then have lt: "i + 3 < n" by (simp add: loop_cond)
    have d: "16 dvd i + 16" using "1.prems" by simp
    have sf: "sampledFrom n i = i # sampledFrom n (i + 16)"
      using True by (subst sampledFrom.simps) simp
    have "{j. 16 dvd j \<and> i \<le> j \<and> j + 3 < n}
          = insert i {j. 16 dvd j \<and> i + 16 \<le> j \<and> j + 3 < n}" (is "?L = ?R")
    proof (rule set_eqI)
      fix j
      show "j \<in> ?L \<longleftrightarrow> j \<in> ?R"
        using lt "1.prems" mult16_cases [of j i] by auto
    qed
    then show ?thesis
      unfolding sf using "1.IH" [OF True d] by simp
  next
    case False
    then have nlt: "\<not> i + 3 < n" by (simp add: loop_cond)
    have sf: "sampledFrom n i = []"
      using False by (subst sampledFrom.simps) simp
    show ?thesis unfolding sf using nlt by auto
  qed
qed

lemma sampledFrom_length:
  "16 dvd i \<Longrightarrow> 4 dvd n \<Longrightarrow> length (sampledFrom n i) = (n + 12) div 16 - i div 16"
proof (induction n i rule: sampledFrom.induct)
  case (1 n i)
  show ?case
  proof (cases "int i < int n - 3")
    case True
    then have lt: "i + 3 < n" by (simp add: loop_cond)
    have d: "16 dvd i + 16" using "1.prems" by simp
    have sf: "sampledFrom n i = i # sampledFrom n (i + 16)"
      using True by (subst sampledFrom.simps) simp
    define A where "A = (n + 12) div 16"
    define B where "B = i div 16"
    have "B < A" unfolding A_def B_def using div_gt [OF "1.prems" lt] .
    moreover have "length (sampledFrom n (i + 16)) = A - Suc B"
      unfolding A_def B_def using "1.IH" [OF True d "1.prems"(2)] by simp
    ultimately have "length (i # sampledFrom n (i + 16)) = A - B" by simp
    then show ?thesis unfolding sf A_def B_def .
  next
    case False
    then have nlt: "\<not> i + 3 < n" by (simp add: loop_cond)
    have sf: "sampledFrom n i = []"
      using False by (subst sampledFrom.simps) simp
    show ?thesis unfolding sf using div_le [OF "1.prems"(1) nlt] by simp
  qed
qed

lemma sampledFrom_distinct: "distinct (sampledFrom n i)"
proof (induction n i rule: sampledFrom.induct)
  case (1 n i)
  show ?case
  proof (cases "int i < int n - 3")
    case True
    have sf: "sampledFrom n i = i # sampledFrom n (i + 16)"
      using True by (subst sampledFrom.simps) simp
    have ge: "\<And>j m k. j \<in> set (sampledFrom m k) \<Longrightarrow> k \<le> j"
    proof -
      fix j m k show "j \<in> set (sampledFrom m k) \<Longrightarrow> k \<le> j"
      proof (induction m k rule: sampledFrom.induct)
        case (1 m k)
        show ?case
        proof (cases "int k < int m - 3")
          case True
          with "1.prems" have "j = k \<or> j \<in> set (sampledFrom m (k + 16))"
            by (subst (asm) sampledFrom.simps) simp
          with "1.IH" [OF True] show ?thesis by auto
        next
          case False
          with "1.prems" show ?thesis by (subst (asm) sampledFrom.simps) simp
        qed
      qed
    qed
    have "i \<notin> set (sampledFrom n (i + 16))" using ge [of i n "i + 16"] by auto
    then show ?thesis unfolding sf using "1.IH" [OF True] by simp
  next
    case False
    then show ?thesis by (subst sampledFrom.simps) simp
  qed
qed

text \<open>Two identical frames never report motion, at any non-negative sensitivity.\<close>

lemma unchanged_same: "0 \<le> s \<Longrightarrow> \<not> changed c c s i"
  by (simp add: changed_def absDiff_def)

lemma motionLoop_same: "0 \<le> s \<Longrightarrow> motionLoop c c s n i m = m"
  by (simp add: motionLoop_count unchanged_same)

lemma compareFrames_same:
  "0 \<le> s \<Longrightarrow> compareFrames s (Some f) f = Some False"
  by (simp add: compareFrames_def Let_def motionLoop_same)

lemma compareFrames_absent_or_mismatch:
  "compareFrames s None cur = None"
  "img_width p \<noteq> img_width cur \<or> img_height p \<noteq> img_height cur \<Longrightarrow>
     compareFrames s (Some p) cur = None"
  by (auto simp: compareFrames_def)

lemma detectMotion_inv:
  "(previousFrame st = None \<longrightarrow> \<not> motionDetected st) \<Longrightarrow>
   (previousFrame (detectMotion t st) = None \<longrightarrow> \<not> motionDetected (detectMotion t st))"
  by (auto simp: detectMotion_def split: grab.splits option.splits)

lemma motionStep_inv:
  "(previousFrame st = None \<longrightarrow> \<not> motionDetected st) \<Longrightarrow>
   (previousFrame (motionStep st e) = None \<longrightarrow> \<not> motionDetected (motionStep st e))"
  using detectMotion_inv by (cases e) auto

lemma reachable_inv:
  "(previousFrame st = None \<longrightarrow> \<not> motionDetected st) \<Longrightarrow>
   (previousFrame (foldl motionStep st es) = None \<longrightarrow> \<not> motionDetected (foldl motionStep st es))"
proof (induction es arbitrary: st)
  case Nil
  then show ?case by simp
next
  case (Cons e es)
  from Cons.IH [OF motionStep_inv [OF Cons.prems, of e]] show ?case by simp
qed


lemma sampledFrom_ge: "j \<in> set (sampledFrom n i) \<Longrightarrow> i \<le> j \<and> j + 3 < n"
proof (induction n i rule: sampledFrom.induct)
  case (1 n i)
  show ?case
  proof (cases "int i < int n - 3")
    case True
    with "1.prems" have "j = i \<or> j \<in> set (sampledFrom n (i + 16))"
      by (subst (asm) sampledFrom.simps) simp
    with "1.IH" [OF True] True show ?thesis by (auto simp: loop_cond)
  next
    case False
    with "1.prems" show ?thesis by (subst (asm) sampledFrom.simps) simp
  qed
qed

lemma motionLoop_suffix:
  assumes "length x = length y" "length x \<le> i" "0 \<le> s"
  shows "motionLoop (x @ r) (y @ r) s n i m = m"
proof -
  have "\<not> changed (x @ r) (y @ r) s j" if "j \<in> set (sampledFrom n i)" for j
  proof -
    from sampledFrom_ge [OF that] assms have "length x \<le> j" by simp
    with assms show ?thesis by (simp add: changed_def absDiff_def nth_append)
  qed
  then have "filter (changed (x @ r) (y @ r) s) (sampledFrom n i) = []"
    by (simp add: filter_empty_conv)
  then show ?thesis by (simp add: motionLoop_count)
qed

text \<open>
  When the buffer length is a multiple of 16 (the pixel count a multiple of 4), the loop
  visits exactly \<open>dataLength / 16\<close> pixels and the verdict is that the changed pixels are
  strictly more than 1% of the sampled ones.
\<close>

lemma compareFrames_one_percent:
  assumes "img_width p = img_width c" "img_height p = img_height c"
    and "length (img_data c) = n" "length (img_data p) = n" "16 dvd n"
  shows "compareFrames s (Some p) c
         = Some (real (length (filter (changed (img_data c) (img_data p) s) (sampledFrom n 0)))
                   > real (length (sampledFrom n 0)) / 100)"
proof -
  from assms(5) obtain k where k: "n = 16 * k" unfolding dvd_def by blast
  then have "4 dvd n" by simp
  then have len: "length (sampledFrom n 0) = k"
    using sampledFrom_length [of 0 n] k by simp
  have thr: "real n / 16 * (1 / 100) = real k / 100" using k by simp
  have "compareFrames s (Some p) c
        = Some (real (motionLoop (img_data c) (img_data p) s n 0 0) > real n / 16 * (1 / 100))"
    using assms(1-4) by (simp add: compareFrames_def Let_def mult.commute)
  then show ?thesis unfolding thr len by (simp add: motionLoop_count)
qed

text \<open>
  Claim C4, evaluated where the code departs from it. Two 21 by 19 frames (1596 bytes)
  differ in their first pixel only, at sensitivity 20. The loop visits 100 pixels and
  counts one changed pixel, which is exactly 1% of the sampled pixels and not more; the
  code still reports motion, because its threshold is 1% of \<open>1596 / 16 = 99.75\<close>.
\<close>

theorem threshold_not_one_percent_of_samples:
  "compareFrames 20
     (Some \<lparr>img_width = 21, img_height = 19,
            img_data = [0, 0, 0, 255] @ concat (replicate 398 [0, 0, 0, 255])\<rparr>)
     \<lparr>img_width = 21, img_height = 19,
      img_data = [255, 255, 255, 255] @ concat (replicate 398 [0, 0, 0, 255])\<rparr> = Some True
   \<and> motionLoop ([255, 255, 255, 255] @ concat (replicate 398 [0, 0, 0, 255]))
                 ([0, 0, 0, 255] @ concat (replicate 398 [0, 0, 0, 255])) 20 1596 0 0 = 1
   \<and> length (sampledFrom 1596 0) = 100"
proof -
  let ?r = "concat (replicate 398 [0, 0, 0, 255 :: 8 word])"
  have lr: "length ?r = 1592" by (simp add: length_concat sum_list_replicate)
  have "motionLoop ([255, 255, 255, 255] @ ?r) ([0, 0, 0, 255] @ ?r) 20 1596 0 0
        = motionLoop ([255, 255, 255, 255] @ ?r) ([0, 0, 0, 255] @ ?r) 20 1596 16 1"
    by (subst motionLoop.simps) (simp add: absDiff_def)
  also have "\<dots> = 1" by (rule motionLoop_suffix) simp_all
  finally have ml: "motionLoop ([255, 255, 255, 255] @ ?r) ([0, 0, 0, 255] @ ?r) 20 1596 0 0 = 1" .
  have sl: "length (sampledFrom 1596 0) = 100"
    using sampledFrom_length [of 0 1596] by simp
  from ml lr sl show ?thesis by (simp add: compareFrames_def Let_def)
qed


text \<open>
  Claim C5 as stated fails: after a tick that saw motion, a tick whose frame has other
  dimensions than the previous one leaves the motion flag set.
\<close>

theorem stale_motion_after_resize_counterexample:
  "previousFrame
     (foldl motionStep initialMotionState
        [StartWebcam True,
         Tick \<lparr>mounted = True, videoWidth = 1, videoHeight = 1,
               frame = Grabbed \<lparr>img_width = 1, img_height = 1, img_data = [0, 0, 0, 255]\<rparr>\<rparr>,
         Tick \<lparr>mounted = True, videoWidth = 1, videoHeight = 1,
               frame = Grabbed \<lparr>img_width = 1, img_height = 1, img_data = [255, 255, 255, 255]\<rparr>\<rparr>])
     = Some \<lparr>img_width = 1, img_height = 1, img_data = [255, 255, 255, 255]\<rparr>
   \<and> motionDetected
       (detectMotion
          \<lparr>mounted = True, videoWidth = 2, videoHeight = 1,
           frame = Grabbed \<lparr>img_width = 2, img_height = 1,
                             img_data = [255, 255, 255, 255, 255, 255, 255, 255]\<rparr>\<rparr>
          (foldl motionStep initialMotionState
             [StartWebcam True,
              Tick \<lparr>mounted = True, videoWidth = 1, videoHeight = 1,
                    frame = Grabbed \<lparr>img_width = 1, img_height = 1, img_data = [0, 0, 0, 255]\<rparr>\<rparr>,
              Tick \<lparr>mounted = True, videoWidth = 1, videoHeight = 1,
                    frame = Grabbed \<lparr>img_width = 1, img_height = 1,
                                      img_data = [255, 255, 255, 255]\<rparr>\<rparr>]))"
  by (simp add: initialMotionState_def detectMotion_def compareFrames_def Let_def
        motionLoop.simps absDiff_def)

text \<open>
  Claim C5, amended. A tick whose previous frame is absent, or differs in dimensions from
  the current frame, makes no comparison and leaves the reported presence as it was; a
  tick that grabs a frame stores it as the next previous frame; and in every state the
  component reaches from its initial state, an absent previous frame means that no
  motion is reported. No step raises: the only throwing operation is caught.
\<close>

theorem detectMotion_without_comparison:
  "((previousFrame st = None
      \<or> (\<exists>p. previousFrame st = Some p \<and> frame t = Grabbed cur
               \<and> (img_width p \<noteq> img_width cur \<or> img_height p \<noteq> img_height cur)))
     \<longrightarrow> motionDetected (detectMotion t st) = motionDetected st)
   \<and> (mounted t \<and> isActive st \<and> videoWidth t \<noteq> 0 \<and> videoHeight t \<noteq> 0
        \<and> frame t = Grabbed cur
     \<longrightarrow> previousFrame (detectMotion t st) = Some cur)
   \<and> (previousFrame (foldl motionStep initialMotionState es) = None
     \<longrightarrow> \<not> motionDetected (foldl motionStep initialMotionState es))"
proof (intro conjI impI)
  assume "previousFrame st = None
      \<or> (\<exists>p. previousFrame st = Some p \<and> frame t = Grabbed cur
               \<and> (img_width p \<noteq> img_width cur \<or> img_height p \<noteq> img_height cur))"
  then show "motionDetected (detectMotion t st) = motionDetected st"
    by (auto simp: detectMotion_def compareFrames_absent_or_mismatch split: grab.splits)
next
  assume "mounted t \<and> isActive st \<and> videoWidth t \<noteq> 0 \<and> videoHeight t \<noteq> 0
        \<and> frame t = Grabbed cur"
  then show "previousFrame (detectMotion t st) = Some cur"
    by (simp add: detectMotion_def split: option.splits)
next
  assume "previousFrame (foldl motionStep initialMotionState es) = None"
  then show "\<not> motionDetected (foldl motionStep initialMotionState es)"
    using reachable_inv [of initialMotionState es] by (simp add: initialMotionState_def)
qed

theorem detectMotion_without_comparison_witness:
  "motionDetected
     (detectMotion
        \<lparr>mounted = True, videoWidth = 2, videoHeight = 1,
         frame = Grabbed \<lparr>img_width = 2, img_height = 1,
                           img_data = [255, 255, 255, 255, 255, 255, 255, 255]\<rparr>\<rparr>
        \<lparr>previousFrame = Some \<lparr>img_width = 1, img_height = 1, img_data = [0, 0, 0, 255]\<rparr>,
         motionDetected = True, sensitivity = 20, isActive = True\<rparr>)
   \<and> previousFrame
       (detectMotion
          \<lparr>mounted = True, videoWidth = 2, videoHeight = 1,
           frame = Grabbed \<lparr>img_width = 2, img_height = 1,
                             img_data = [255, 255, 255, 255, 255, 255, 255, 255]\<rparr>\<rparr>
          \<lparr>previousFrame = Some \<lparr>img_width = 1, img_height = 1, img_data = [0, 0, 0, 255]\<rparr>,
           motionDetected = True, sensitivity = 20, isActive = True\<rparr>)
       = Some \<lparr>img_width = 2, img_height = 1,
                img_data = [255, 255, 255, 255, 255, 255, 255, 255]\<rparr>
   \<and> previousFrame (foldl motionStep initialMotionState [StartWebcam True]) = None
   \<and> \<not> motionDetected (foldl motionStep initialMotionState [StartWebcam True])"
  using detectMotion_without_comparison
    [of "\<lparr>previousFrame = Some \<lparr>img_width = 1, img_height = 1, img_data = [0, 0, 0, 255]\<rparr>,
          motionDetected = True, sensitivity = 20, isActive = True\<rparr>"
        "\<lparr>mounted = True, videoWidth = 2, videoHeight = 1,
          frame = Grabbed \<lparr>img_width = 2, img_height = 1,
                            img_data = [255, 255, 255, 255, 255, 255, 255, 255]\<rparr>\<rparr>"
        "\<lparr>img_width = 2, img_height = 1, img_data = [255, 255, 255, 255, 255, 255, 255, 255]\<rparr>"
        "[StartWebcam True]"]
  by (simp add: initialMotionState_def)

subsection \<open>The registry\<close>

lemma trim_empty_iff: "trim s = [] \<longleftrightarrow> (\<forall>c\<in>set s. isWhiteSpace c)"
proof
  assume e: "trim s = []"
  show "\<forall>c\<in>set s. isWhiteSpace c"
  proof (cases "dropWhile isWhiteSpace s")
    case Nil
    then show ?thesis by simp
  next
    case (Cons x xs)
    then have "\<not> isWhiteSpace x" using hd_dropWhile [of isWhiteSpace s] by auto
    moreover from e Cons have "\<forall>c\<in>set (rev (x # xs)). isWhiteSpace c"
      by (simp only: trim_def rev_is_Nil_conv dropWhile_eq_Nil_conv)
    ultimately show ?thesis by simp
  qed
next
  assume "\<forall>c\<in>set s. isWhiteSpace c"
  then have d: "dropWhile isWhiteSpace s = []" by simp
  show "trim s = []" by (simp only: trim_def d rev.simps dropWhile.simps)
qed

lemma digitChar_inj: "a < 10 \<Longrightarrow> b < 10 \<Longrightarrow> digitChar a = digitChar b \<Longrightarrow> a = b"
proof -
  assume a: "a < 10" and b: "b < 10" and e: "digitChar a = digitChar b"
  have d: "distinct ''0123456789''" by simp
  from a b have "a < length ''0123456789''" "b < length ''0123456789''" by simp_all
  with d e show "a = b" unfolding digitChar_def by (simp only: nth_eq_iff_index_eq)
qed

lemma toString_length: "10 \<le> n \<Longrightarrow> 2 \<le> length (toString n)"
  by (subst toString.simps, subst toString.simps) simp

lemma toString_inj: "toString m = toString n \<Longrightarrow> m = n"
proof (induction m arbitrary: n rule: less_induct)
  case (less m)
  show ?case
  proof (cases "m < 10")
    case True
    show ?thesis
    proof (cases "n < 10")
      case n: True
      from less.prems True n have "digitChar m = digitChar n"
        by (simp add: toString.simps)
      from digitChar_inj [OF True n this] show ?thesis .
    next
      case False
      then have "2 \<le> length (toString n)" by (simp add: toString_length)
      moreover from True have "length (toString m) = 1" by (simp add: toString.simps)
      ultimately show ?thesis using less.prems by simp
    qed
  next
    case False
    show ?thesis
    proof (cases "n < 10")
      case True
      from False have "2 \<le> length (toString m)" by (simp add: toString_length)
      moreover from True have "length (toString n) = 1" by (simp add: toString.simps)
      ultimately show ?thesis using less.prems by simp
    next
      case n: False
      from False have m1: "toString m = toString (m div 10) @ [digitChar (m mod 10)]"
        by (subst toString.simps) simp
      from n have n1: "toString n = toString (n div 10) @ [digitChar (n mod 10)]"
        by (subst toString.simps) simp
      from less.prems m1 n1 have e: "toString (m div 10) = toString (n div 10)"
        and d: "digitChar (m mod 10) = digitChar (n mod 10)" by simp_all
      from False have "m div 10 < m" by simp
      from less.IH [OF this e] have q: "m div 10 = n div 10" .
      have r: "m mod 10 = n mod 10" by (rule digitChar_inj [OF _ _ d]) simp_all
      have "m = 10 * (m div 10) + m mod 10" by simp
      also have "\<dots> = 10 * (n div 10) + n mod 10" using q r by simp
      also have "\<dots> = n" by simp
      finally show ?thesis .
    qed
  qed
qed


text \<open>
  Claim C7 as stated fails: with a name of blanks only, \<open>saveFace\<close> returns at its
  guard and reports no error.
\<close>
theorem saveFace_blank_name_counterexample:
  "error (saveFace \<lparr>videoMounted = True, detections = Detections [[Fin 0]],
                    now = 1700000000000, localeString = ''1/1/2024, 10:00:00 AM''\<rparr>
                   \<lparr>savedFaces = [], error = None, faceName = ''   '', faceDetected = True,
                    matchedFace = None\<rparr>) = None"
  by (simp add: saveFace_def trim_def isWhiteSpace_def)

text \<open>
  Claim C7, amended. When no face is currently detected, or the name is empty or white
  space only, or the video element is missing, enrolment is a silent no-operation: the
  whole state, registry and error included, is unchanged. When the detection made for
  the enrolment finds no face, or throws, an error message is set and the registry is
  unchanged. Otherwise a new signature is appended at the end of the registry, with the
  decimal clock reading as id, the trimmed name, the date and the descriptor of the
  first face found, and the name field is cleared.
\<close>
theorem saveFace_outcomes:
  "(\<not> faceDetected st \<or> (\<forall>c\<in>set (faceName st). isWhiteSpace c) \<or> \<not> videoMounted env
      \<longrightarrow> saveFace env st = st)
   \<and> (faceDetected st \<and> \<not> (\<forall>c\<in>set (faceName st). isWhiteSpace c) \<and> videoMounted env
        \<and> detections env = Detections []
      \<longrightarrow> savedFaces (saveFace env st) = savedFaces st
          \<and> error (saveFace env st)
              = Some ''No face detected. Please position your face in the frame.'')
   \<and> (faceDetected st \<and> \<not> (\<forall>c\<in>set (faceName st). isWhiteSpace c) \<and> videoMounted env
        \<and> detections env = DetectionThrows
      \<longrightarrow> savedFaces (saveFace env st) = savedFaces st
          \<and> error (saveFace env st) = Some ''Failed to save face. Please try again.'')
   \<and> (faceDetected st \<and> \<not> (\<forall>c\<in>set (faceName st). isWhiteSpace c) \<and> videoMounted env
        \<and> detections env = Detections (d # ds)
      \<longrightarrow> savedFaces (saveFace env st)
            = savedFaces st @ [\<lparr>face_id = Some (toString (now env)),
                                 name = Some (trim (faceName st)),
                                 savedAt = Some (localeString env),
                                 descriptor = Some (map Num d)\<rparr>]
          \<and> error (saveFace env st) = error st
          \<and> faceName (saveFace env st) = [])"
  by (simp add: saveFace_def trim_empty_iff Let_def)


theorem saveFace_outcomes_witness:
  "saveFace \<lparr>videoMounted = True, detections = Detections [[Fin 0]],
             now = 1700000000000, localeString = ''1/1/2024''\<rparr>
            \<lparr>savedFaces = [], error = None, faceName = ''   '', faceDetected = True,
             matchedFace = None\<rparr>
     = \<lparr>savedFaces = [], error = None, faceName = ''   '', faceDetected = True,
        matchedFace = None\<rparr>
   \<and> error (saveFace \<lparr>videoMounted = True, detections = Detections [],
                      now = 1700000000000, localeString = ''1/1/2024''\<rparr>
                     \<lparr>savedFaces = [], error = None, faceName = '' Bob '', faceDetected = True,
                      matchedFace = None\<rparr>)
       = Some ''No face detected. Please position your face in the frame.''
   \<and> error (saveFace \<lparr>videoMounted = True, detections = DetectionThrows,
                      now = 1700000000000, localeString = ''1/1/2024''\<rparr>
                     \<lparr>savedFaces = [], error = None, faceName = '' Bob '', faceDetected = True,
                      matchedFace = None\<rparr>)
       = Some ''Failed to save face. Please try again.''
   \<and> savedFaces (saveFace \<lparr>videoMounted = True, detections = Detections [[Fin 0], [Fin 1]],
                           now = 1700000000000, localeString = ''1/1/2024''\<rparr>
                          \<lparr>savedFaces = [], error = None, faceName = '' Bob '',
                           faceDetected = True, matchedFace = None\<rparr>)
       = [\<lparr>face_id = Some (toString 1700000000000), name = Some ''Bob'',
           savedAt = Some ''1/1/2024'', descriptor = Some [Num (Fin 0)]\<rparr>]"
  using
    saveFace_outcomes
      [of "\<lparr>savedFaces = [], error = None, faceName = ''   '', faceDetected = True,
             matchedFace = None\<rparr>"
          "\<lparr>videoMounted = True, detections = Detections [[Fin 0]],
             now = 1700000000000, localeString = ''1/1/2024''\<rparr>"]
    saveFace_outcomes
      [of "\<lparr>savedFaces = [], error = None, faceName = '' Bob '', faceDetected = True,
             matchedFace = None\<rparr>"
          "\<lparr>videoMounted = True, detections = Detections [],
             now = 1700000000000, localeString = ''1/1/2024''\<rparr>"]
    saveFace_outcomes
      [of "\<lparr>savedFaces = [], error = None, faceName = '' Bob '', faceDetected = True,
             matchedFace = None\<rparr>"
          "\<lparr>videoMounted = True, detections = DetectionThrows,
             now = 1700000000000, localeString = ''1/1/2024''\<rparr>"]
    saveFace_outcomes
      [of "\<lparr>savedFaces = [], error = None, faceName = '' Bob '', faceDetected = True,
             matchedFace = None\<rparr>"
          "\<lparr>videoMounted = True, detections = Detections [[Fin 0], [Fin 1]],
             now = 1700000000000, localeString = ''1/1/2024''\<rparr>"
          "[Fin 0]" "[[Fin 1]]"]
  by (simp add: isWhiteSpace_def trim_def)

text \<open>
  Claim C6 as stated fails: an entry with no name, no id, no date and an empty
  descriptor is imported, and no error is reported.
\<close>
theorem importFaces_unvalidated_counterexample:
  "\<not> specValidEntry \<lparr>face_id = None, name = None, savedAt = None, descriptor = Some []\<rparr>
   \<and> savedFaces (importFaces (\<lambda>content. content)
                   (Some (Array [\<lparr>face_id = None, name = None, savedAt = None,
                                  descriptor = Some []\<rparr>]))
                   initialFaceState)
       = [\<lparr>face_id = None, name = None, savedAt = None, descriptor = Some []\<rparr>]
   \<and> error (importFaces (\<lambda>content. content)
              (Some (Array [\<lparr>face_id = None, name = None, savedAt = None,
                             descriptor = Some []\<rparr>]))
              initialFaceState) = None"
  by (simp add: specValidEntry_def importFaces_def onload_def initialFaceState_def)

text \<open>
  Claim C6, amended. The import validates no entry. When the file parses to an array,
  all its elements are appended to the registry, in order, whatever their fields, and
  the error is unchanged; when no file was chosen or it parses to something that is not
  an array, the state is unchanged; when it does not parse, an error message is set and
  the registry is unchanged. So the whole batch is appended or nothing is.
\<close>

theorem importFaces_all_or_nothing:
  "(file = Some content \<and> parse content = Array fs
      \<longrightarrow> savedFaces (importFaces parse file st) = savedFaces st @ fs
          \<and> error (importFaces parse file st) = error st)
   \<and> (file = None \<or> (file = Some content \<and> parse content = NotArray)
      \<longrightarrow> importFaces parse file st = st)
   \<and> (file = Some content \<and> parse content = SyntaxError
      \<longrightarrow> savedFaces (importFaces parse file st) = savedFaces st
          \<and> error (importFaces parse file st)
              = Some ''Invalid face signatures file. Please try again.'')"
  by (auto simp: importFaces_def onload_def)

theorem importFaces_all_or_nothing_witness:
  "savedFaces (importFaces (\<lambda>content. content)
                 (Some (Array [\<lparr>face_id = None, name = None, savedAt = None,
                                descriptor = Some []\<rparr>]))
                 initialFaceState)
     = [\<lparr>face_id = None, name = None, savedAt = None, descriptor = Some []\<rparr>]
   \<and> importFaces (\<lambda>content. content) (Some NotArray) initialFaceState = initialFaceState
   \<and> savedFaces (importFaces (\<lambda>content. content) (Some SyntaxError) initialFaceState) = []
   \<and> error (importFaces (\<lambda>content. content) (Some SyntaxError) initialFaceState)
       = Some ''Invalid face signatures file. Please try again.''"
  using
    importFaces_all_or_nothing
      [of "Some (Array [\<lparr>face_id = None, name = None, savedAt = None, descriptor = Some []\<rparr>])"
          "Array [\<lparr>face_id = None, name = None, savedAt = None, descriptor = Some []\<rparr>]"
          "\<lambda>content. content"
          "[\<lparr>face_id = None, name = None, savedAt = None, descriptor = Some []\<rparr>]"
          initialFaceState]
    importFaces_all_or_nothing
      [of "Some NotArray" NotArray "\<lambda>content. content" _ initialFaceState]
    importFaces_all_or_nothing
      [of "Some SyntaxError" SyntaxError "\<lambda>content. content" _ initialFaceState]
  by (simp add: initialFaceState_def)


lemma digitValue_digitChar: "d < 10 \<Longrightarrow> digitValue (digitChar d) = d"
proof -
  assume "d < 10"
  then have "d \<in> {0, 1, 2, 3, 4, 5, 6, 7, 8, 9}" by auto
  then show ?thesis by (auto simp: digitValue_def digitChar_def)
qed

lemma idNumber_toString: "idNumber (toString n) = n"
proof (induction n rule: less_induct)
  case (less n)
  show ?case
  proof (cases "n < 10")
    case True
    then show ?thesis by (simp add: toString.simps idNumber_def digitValue_digitChar)
  next
    case False
    then have "n div 10 < n" by simp
    from less.IH [OF this] have ih: "idNumber (toString (n div 10)) = n div 10" .
    from False have "toString n = toString (n div 10) @ [digitChar (n mod 10)]"
      by (subst toString.simps) simp
    then have "idNumber (toString n) = 10 * idNumber (toString (n div 10)) + digitValue (digitChar (n mod 10))"
      by (simp add: idNumber_def)
    also have "\<dots> = 10 * (n div 10) + n mod 10" by (simp add: ih digitValue_digitChar)
    also have "\<dots> = n" by simp
    finally show ?thesis .
  qed
qed


text \<open>
  Claim C8 as stated fails, twice: importing the same one-entry file twice into the empty
  registry leaves two entries with the same id, and so do two enrolments that read the
  same clock value.
\<close>

theorem duplicate_ids_counterexample:
  "uniqueIds (savedFaces initialFaceState)
   \<and> uniqueIds [\<lparr>face_id = Some ''1700000000000'', name = Some ''Alice'',
                   savedAt = Some ''1/1/2024'', descriptor = Some [Num (Fin 0)]\<rparr>]
   \<and> \<not> uniqueIds
         (savedFaces
            (importFaces (\<lambda>content. content)
               (Some (Array [\<lparr>face_id = Some ''1700000000000'', name = Some ''Alice'',
                              savedAt = Some ''1/1/2024'', descriptor = Some [Num (Fin 0)]\<rparr>]))
               (importFaces (\<lambda>content. content)
                  (Some (Array [\<lparr>face_id = Some ''1700000000000'', name = Some ''Alice'',
                                 savedAt = Some ''1/1/2024'', descriptor = Some [Num (Fin 0)]\<rparr>]))
                  initialFaceState)))
   \<and> \<not> uniqueIds
         (savedFaces
            (saveFace \<lparr>videoMounted = True, detections = Detections [[Fin 0]],
                       now = 1700000000000, localeString = ''1/1/2024''\<rparr>
               ((saveFace \<lparr>videoMounted = True, detections = Detections [[Fin 0]],
                           now = 1700000000000, localeString = ''1/1/2024''\<rparr>
                   \<lparr>savedFaces = [], error = None, faceName = ''Bob'', faceDetected = True,
                    matchedFace = None\<rparr>)
                \<lparr>faceName := ''Bob''\<rparr>)))"
  by (simp add: uniqueIds_def importFaces_def onload_def initialFaceState_def saveFace_def
        trim_def isWhiteSpace_def)

lemma saveFace_appends: "\<exists>new. savedFaces (saveFace env st) = savedFaces st @ new"
  by (simp add: saveFace_def Let_def split: detection.splits list.splits)

lemma importFaces_appends: "\<exists>new. savedFaces (importFaces parse file st) = savedFaces st @ new"
  by (simp add: importFaces_def onload_def split: option.splits parsed.splits)

lemma saveFace_new_id:
  "savedFaces (saveFace env st) = savedFaces st @ new \<Longrightarrow>
   new = [] \<or> (\<exists>f. new = [f] \<and> face_id f = Some (toString (now env)))"
  by (auto simp: saveFace_def Let_def split: detection.splits list.splits if_splits)

text \<open>
  Claim C8, amended. The id assigned at enrolment is the decimal clock reading: read as
  a number it is the creation time, so of two enrolments the one with the later reading
  has the larger id, and the ids differ when the readings differ; two enrolments at the
  same reading get the same id. No operation changes the id of an entry: enrolment and
  import only append, and removal only filters. Removal keeps the ids of the registry
  pairwise distinct; enrolment does when the decimal clock reading is not yet an id of
  the registry; import does when the ids of the batch are pairwise distinct and none of
  them is in the registry, and it checks neither.
\<close>

theorem uniqueIds_preservation:
  "(uniqueIds (savedFaces st) \<longrightarrow> uniqueIds (savedFaces (removeFace i st)))
   \<and> (uniqueIds (savedFaces st) \<and> Some (toString (now env)) \<notin> face_id ` set (savedFaces st)
        \<longrightarrow> uniqueIds (savedFaces (saveFace env st)))
   \<and> (uniqueIds (savedFaces st) \<and> uniqueIds fs
        \<and> face_id ` set (savedFaces st) \<inter> face_id ` set fs = {}
        \<and> file = Some content \<and> parse content = Array fs
        \<longrightarrow> uniqueIds (savedFaces (importFaces parse file st)))
   \<and> (m \<noteq> n \<longrightarrow> toString m \<noteq> toString n)
   \<and> (\<exists>new. savedFaces (saveFace env st) = savedFaces st @ new)
   \<and> (\<exists>new. savedFaces (importFaces parse file st) = savedFaces st @ new)
   \<and> savedFaces (removeFace i st) = filter (\<lambda>face. face_id face \<noteq> i) (savedFaces st)
   \<and> (savedFaces (saveFace env st) = savedFaces st @ [f1]
        \<and> savedFaces (saveFace env' st') = savedFaces st' @ [f2]
        \<and> now env \<le> now env'
        \<longrightarrow> (\<exists>s1 s2. face_id f1 = Some s1 \<and> face_id f2 = Some s2
               \<and> idNumber s1 = now env \<and> idNumber s2 = now env'
               \<and> idNumber s1 \<le> idNumber s2
               \<and> (now env < now env' \<longrightarrow> idNumber s1 < idNumber s2 \<and> s1 \<noteq> s2)
               \<and> (now env = now env' \<longrightarrow> s1 = s2)))"
proof (intro conjI impI)
  assume "uniqueIds (savedFaces st)"
  then show "uniqueIds (savedFaces (removeFace i st))"
    by (simp add: uniqueIds_def removeFace_def distinct_map_filter)
next
  assume a: "uniqueIds (savedFaces st) \<and> Some (toString (now env)) \<notin> face_id ` set (savedFaces st)"
  from saveFace_appends obtain new where n: "savedFaces (saveFace env st) = savedFaces st @ new"
    by blast
  from saveFace_new_id [OF n] a show "uniqueIds (savedFaces (saveFace env st))"
    unfolding n by (force simp: uniqueIds_def image_iff)
next
  assume "uniqueIds (savedFaces st) \<and> uniqueIds fs
        \<and> face_id ` set (savedFaces st) \<inter> face_id ` set fs = {}
        \<and> file = Some content \<and> parse content = Array fs"
  then show "uniqueIds (savedFaces (importFaces parse file st))"
    by (auto simp: uniqueIds_def importFaces_def onload_def)
next
  assume "m \<noteq> n"
  then show "toString m \<noteq> toString n" using toString_inj by blast
next
  show "\<exists>new. savedFaces (saveFace env st) = savedFaces st @ new" by (rule saveFace_appends)
next
  show "\<exists>new. savedFaces (importFaces parse file st) = savedFaces st @ new"
    by (rule importFaces_appends)
next
  show "savedFaces (removeFace i st) = filter (\<lambda>face. face_id face \<noteq> i) (savedFaces st)"
    by (simp add: removeFace_def)
next
  assume a: "savedFaces (saveFace env st) = savedFaces st @ [f1]
        \<and> savedFaces (saveFace env' st') = savedFaces st' @ [f2]
        \<and> now env \<le> now env'"
  from a saveFace_new_id [of env st "[f1]"] have i1: "face_id f1 = Some (toString (now env))"
    by simp
  from a saveFace_new_id [of env' st' "[f2]"] have i2: "face_id f2 = Some (toString (now env'))"
    by simp
  have "idNumber (toString (now env)) = now env \<and> idNumber (toString (now env')) = now env'
        \<and> idNumber (toString (now env)) \<le> idNumber (toString (now env'))
        \<and> (now env < now env' \<longrightarrow> idNumber (toString (now env)) < idNumber (toString (now env'))
                                   \<and> toString (now env) \<noteq> toString (now env'))
        \<and> (now env = now env' \<longrightarrow> toString (now env) = toString (now env'))"
    using a toString_inj [of "now env" "now env'"] by (auto simp: idNumber_toString)
  with i1 i2
  show "\<exists>s1 s2. face_id f1 = Some s1 \<and> face_id f2 = Some s2
               \<and> idNumber s1 = now env \<and> idNumber s2 = now env'
               \<and> idNumber s1 \<le> idNumber s2
               \<and> (now env < now env' \<longrightarrow> idNumber s1 < idNumber s2 \<and> s1 \<noteq> s2)
               \<and> (now env = now env' \<longrightarrow> s1 = s2)"
    by blast
qed

theorem uniqueIds_preservation_witness:
  "uniqueIds (savedFaces
      (removeFace (Some ''1'')
         \<lparr>savedFaces = [\<lparr>face_id = Some ''1'', name = Some ''Alice'', savedAt = Some ''today'',
                          descriptor = Some [Num (Fin 0)]\<rparr>],
          error = None, faceName = ''Bob'', faceDetected = True, matchedFace = None\<rparr>))
   \<and> uniqueIds (savedFaces
      (saveFace \<lparr>videoMounted = True, detections = Detections [[Fin 1]], now = 2,
                 localeString = ''today''\<rparr>
         \<lparr>savedFaces = [\<lparr>face_id = Some ''1'', name = Some ''Alice'', savedAt = Some ''today'',
                          descriptor = Some [Num (Fin 0)]\<rparr>],
          error = None, faceName = ''Bob'', faceDetected = True, matchedFace = None\<rparr>))
   \<and> uniqueIds (savedFaces
      (importFaces (\<lambda>content. content)
         (Some (Array [\<lparr>face_id = Some ''3'', name = Some ''Carol'', savedAt = Some ''today'',
                        descriptor = Some [Num (Fin 0)]\<rparr>]))
         \<lparr>savedFaces = [\<lparr>face_id = Some ''1'', name = Some ''Alice'', savedAt = Some ''today'',
                          descriptor = Some [Num (Fin 0)]\<rparr>],
          error = None, faceName = ''Bob'', faceDetected = True, matchedFace = None\<rparr>))
   \<and> toString 1 \<noteq> toString 2
   \<and> (\<exists>s1 s2. Some ''2'' = Some s1 \<and> Some ''13'' = Some s2
         \<and> idNumber s1 = 2 \<and> idNumber s2 = 13 \<and> idNumber s1 < idNumber s2 \<and> s1 \<noteq> s2)"
proof -
  let ?alice = "\<lparr>face_id = Some ''1'', name = Some ''Alice'', savedAt = Some ''today'',
                  descriptor = Some [Num (Fin 0)]\<rparr>"
  let ?st = "\<lparr>savedFaces = [?alice], error = None, faceName = ''Bob'', faceDetected = True,
              matchedFace = None\<rparr>"
  let ?env = "\<lparr>videoMounted = True, detections = Detections [[Fin 1]], now = 2,
               localeString = ''today''\<rparr>"
  let ?env' = "\<lparr>videoMounted = True, detections = Detections [[Fin 1]], now = 13,
                localeString = ''today''\<rparr>"
  let ?f1 = "\<lparr>face_id = Some ''2'', name = Some ''Bob'', savedAt = Some ''today'',
               descriptor = Some [Num (Fin 1)]\<rparr>"
  let ?f2 = "\<lparr>face_id = Some ''13'', name = Some ''Bob'', savedAt = Some ''today'',
               descriptor = Some [Num (Fin 1)]\<rparr>"
  let ?carol = "\<lparr>face_id = Some ''3'', name = Some ''Carol'', savedAt = Some ''today'',
                  descriptor = Some [Num (Fin 0)]\<rparr>"
  have ts: "toString 2 = ''2''" "toString 13 = ''13''" "toString 1 = ''1''"
    by (simp_all add: toString.simps digitChar_def)
  have e1: "savedFaces (saveFace ?env ?st) = savedFaces ?st @ [?f1]"
    by (simp add: saveFace_def trim_def isWhiteSpace_def ts)
  have e2: "savedFaces (saveFace ?env' ?st) = savedFaces ?st @ [?f2]"
    by (simp add: saveFace_def trim_def isWhiteSpace_def ts)
  from uniqueIds_preservation
    [of ?st "Some ''1''" ?env "[?carol]" "Some (Array [?carol])" "Array [?carol]"
        "\<lambda>content. content" 1 2 ?f1 ?env' ?st ?f2] e1 e2
  show ?thesis by (simp add: uniqueIds_def ts)
qed

text \<open>What \<open>JSON.parse\<close> makes of what \<open>JSON.stringify\<close> wrote.\<close>

lemma jsonNumber_numberJson:
  "v = Null \<or> (\<exists>x. v = Num (Fin x) \<and> fl x = Fin x) \<Longrightarrow> jsonNumber (numberJson v) = v"
  by auto

lemma descriptorField_numberJson:
  assumes "\<forall>v\<in>set d. v = Null \<or> (\<exists>x. v = Num (Fin x) \<and> fl x = Fin x)"
  shows "map jsonNumber (map numberJson d) = d"
  using assms by (induction d) (simp_all add: jsonNumber_numberJson)

lemma jsonFace_faceJson:
  assumes "\<forall>d. descriptor f = Some d \<longrightarrow>
             (\<forall>v\<in>set d. v = Null \<or> (\<exists>x. v = Num (Fin x) \<and> fl x = Fin x))"
  shows "jsonFace (faceJson f) = f"
proof -
  have "map jsonNumber (map numberJson d) = d" if "descriptor f = Some d" for d
    using assms that by (intro descriptorField_numberJson) blast
  then show ?thesis
    by (cases f; cases "face_id f"; cases "name f"; cases "savedAt f"; cases "descriptor f")
       (simp_all add: faceJson_def)
qed

lemma jsonParse_jsonStringify:
  "finiteDescriptors faces \<Longrightarrow> jsonParse (jsonStringify faces) = Array faces"
proof -
  assume "finiteDescriptors faces"
  then have "map jsonFace (map faceJson faces) = faces"
  proof (induction faces)
    case Nil
    then show ?case by simp
  next
    case (Cons f fs)
    from Cons.prems have "jsonFace (faceJson f) = f"
      by (intro jsonFace_faceJson) (simp add: finiteDescriptors_def)
    moreover from Cons have "map jsonFace (map faceJson fs) = fs"
      by (simp add: finiteDescriptors_def)
    ultimately show ?case by simp
  qed
  then show ?thesis by (simp add: jsonStringify_def)
qed

text \<open>A literal above the largest double reads as an infinity.\<close>

lemma fl_huge: "fl (10 ^ 999) = PInf"
proof (rule fl_overflow)
  have "pow2 1024 = (2 :: real) ^ 1024" by (simp add: pow2_def)
  also have "\<dots> = (2 ^ 4) ^ 256" by (simp only: power_mult [symmetric]) simp
  also have "\<dots> \<le> (10 ^ 2 :: real) ^ 256" by (rule power_mono) simp_all
  also have "\<dots> = 10 ^ 512" by (simp only: power_mult [symmetric]) simp
  also have "\<dots> \<le> (10 :: real) ^ 999" by (rule power_increasing) simp_all
  finally show "pow2 1024 \<le> 10 ^ 999" .
qed

text \<open>
  Claim C9 as stated fails. A file whose one entry has the descriptor \<open>[1e999]\<close> is
  imported into the empty registry: the number reads as \<open>Infinity\<close>. The export of that
  registry writes \<open>null\<close> in its place, and importing the exported file into the empty
  registry yields an entry whose descriptor is \<open>[null]\<close>, not the entry that was
  exported.
\<close>
theorem export_import_infinity_counterexample:
  "savedFaces
     (importFaces jsonParse
        (Some (Document (JArr [JObj [(''id'', JStr ''1''), (''name'', JStr ''Alice''),
                                     (''savedAt'', JStr ''1/1/2024''),
                                     (''descriptor'', JArr [JNum (10 ^ 999)])]])))
        initialFaceState)
   = [\<lparr>face_id = Some ''1'', name = Some ''Alice'', savedAt = Some ''1/1/2024'',
        descriptor = Some [Num PInf]\<rparr>]
   \<and> savedFaces
       (importFaces jsonParse
          (exportFaces jsonStringify
             (importFaces jsonParse
                (Some (Document (JArr [JObj [(''id'', JStr ''1''), (''name'', JStr ''Alice''),
                                             (''savedAt'', JStr ''1/1/2024''),
                                             (''descriptor'', JArr [JNum (10 ^ 999)])]])))
                initialFaceState))
          initialFaceState)
     = [\<lparr>face_id = Some ''1'', name = Some ''Alice'', savedAt = Some ''1/1/2024'',
          descriptor = Some [Null]\<rparr>]"
  by (simp add: importFaces_def onload_def initialFaceState_def exportFaces_def
        jsonStringify_def faceJson_def fl_huge del: power_numeral)

text \<open>
  Claim C9, amended. The export produces no file exactly when the registry is empty.
  When it produces one, and every descriptor of the registry holds only finite doubles
  and \<open>null\<close>, importing that file into a registry without entries yields the entries of
  the exported registry, in the same order; the serialisation and the parser are
  the host's \<open>JSON.stringify\<close> and \<open>JSON.parse\<close>.
\<close>
theorem export_import_roundtrip_finite:
  "(exportFaces jsonStringify st = None \<longleftrightarrow> savedFaces st = [])
   \<and> (finiteDescriptors (savedFaces st)
        \<and> exportFaces jsonStringify st = Some file
        \<and> savedFaces fresh = []
      \<longrightarrow> savedFaces (importFaces jsonParse (Some file) fresh) = savedFaces st)"
  using jsonParse_jsonStringify [of "savedFaces st"]
  by (auto simp: exportFaces_def importFaces_def onload_def split: if_splits)

theorem export_import_roundtrip_finite_witness:
  "finiteDescriptors [\<lparr>face_id = Some ''1700000000000'', name = Some ''Alice'',
                        savedAt = Some ''1/1/2024'',
                        descriptor = Some [Num (Fin (1/4)), Null]\<rparr>]
   \<and> exportFaces jsonStringify
       \<lparr>savedFaces = [\<lparr>face_id = Some ''1700000000000'', name = Some ''Alice'',
                        savedAt = Some ''1/1/2024'',
                        descriptor = Some [Num (Fin (1/4)), Null]\<rparr>],
        error = None, faceName = [], faceDetected = False, matchedFace = None\<rparr>
     = Some (Document (JArr [JObj [(''id'', JStr ''1700000000000''), (''name'', JStr ''Alice''),
                                   (''savedAt'', JStr ''1/1/2024''),
                                   (''descriptor'', JArr [JNum (1/4), JNull])]]))
   \<and> savedFaces
       (importFaces jsonParse
          (Some (Document (JArr [JObj [(''id'', JStr ''1700000000000''),
                                       (''name'', JStr ''Alice''),
                                       (''savedAt'', JStr ''1/1/2024''),
                                       (''descriptor'', JArr [JNum (1/4), JNull])]])))
          initialFaceState)
     = [\<lparr>face_id = Some ''1700000000000'', name = Some ''Alice'', savedAt = Some ''1/1/2024'',
          descriptor = Some [Num (Fin (1/4)), Null]\<rparr>]
   \<and> exportFaces jsonStringify initialFaceState = None"
proof -
  let ?f = "\<lparr>face_id = Some ''1700000000000'', name = Some ''Alice'',
             savedAt = Some ''1/1/2024'', descriptor = Some [Num (Fin (1/4)), Null]\<rparr>"
  let ?st = "\<lparr>savedFaces = [?f], error = None, faceName = [], faceDetected = False,
              matchedFace = None\<rparr>"
  let ?file = "Document (JArr [JObj [(''id'', JStr ''1700000000000''), (''name'', JStr ''Alice''),
                                     (''savedAt'', JStr ''1/1/2024''),
                                     (''descriptor'', JArr [JNum (1/4), JNull])]])"
  have fin: "finiteDescriptors [?f]"
    apply (simp add: finiteDescriptors_def)
    apply (rule exI [of _ "1/4"])
    apply (simp add: fl_quarter)
    done
  have ex: "exportFaces jsonStringify ?st = Some ?file"
    by (simp add: exportFaces_def jsonStringify_def faceJson_def)
  show ?thesis
    using export_import_roundtrip_finite [of ?st ?file initialFaceState]
      export_import_roundtrip_finite [of initialFaceState] fin ex
    by (simp add: initialFaceState_def)
qed

subsection \<open>The heuristic detector\<close>

lemma length_solid: "length (img_data (solidFrame w h r g b a)) = 4 * (w * h)"
  by (simp add: solidFrame_def length_concat sum_list_replicate)

text \<open>The loops, one turn at a time.\<close>

lemma sampleRow_step:
  "jless x (jadd (rect_x faceRect) (rect_width faceRect)) \<Longrightarrow>
   sampleRow w d faceRect y x acc
   = sampleRow w d faceRect y (jadd x (Fin 10)) (sampleStep w d y x acc)"
  by (subst sampleRow.simps) simp

lemma sampleRow_stop:
  "\<not> jless x (jadd (rect_x faceRect) (rect_width faceRect)) \<Longrightarrow>
   sampleRow w d faceRect y x acc = Some acc"
  by (subst sampleRow.simps) simp

lemma sampleRows_step:
  "jless y (jadd (rect_y faceRect) (rect_height faceRect)) \<Longrightarrow>
   sampleRows w d faceRect y acc
   = Option.bind (sampleRow w d faceRect y (rect_x faceRect) acc)
       (\<lambda>acc'. sampleRows w d faceRect (jadd y (Fin 10)) acc')"
  by (subst sampleRows.simps) simp

lemma sampleRows_stop:
  "\<not> jless y (jadd (rect_y faceRect) (rect_height faceRect)) \<Longrightarrow>
   sampleRows w d faceRect y acc = Some acc"
  by (subst sampleRows.simps) simp

text \<open>Once a total is \<open>NaN\<close> it stays \<open>NaN\<close>, and so do the means.\<close>

lemma sampleStep_NaN:
  "\<exists>n'. sampleStep w d y x (NaN, NaN, NaN, n) = (NaN, NaN, NaN, n')"
  by (simp add: sampleStep_def Let_def)

lemma verdict_NaN:
  "verdict (NaN, NaN, NaN, n) = \<lparr>colorVariance = NaN, brightnessAvg = NaN, isFaceDetected = False\<rparr>"
  by (simp add: verdict_def average_def jsub_def Let_def)

text \<open>
  The arithmetic of the 100 by 100 frame: the square, the coordinates that the loops
  visit, and the byte offset of the first sample.
\<close>

lemma half_100: "jdiv (Fin 100) (Fin 2) = Fin 50"
proof -
  have "fl (100 / 2) = Fin 50"
    by (rule fl_eval [of "5"]) (simp_all add: pow2_def roundEven_def Let_def)
  then show ?thesis by simp
qed

lemma third_100: "jdiv (Fin 100) (Fin 3) = Fin (4691249611844267 / 140737488355328)"
proof -
  have "fl (100 / 3) = Fin (4691249611844267 / 140737488355328)"
    by (rule fl_eval [of "5"]) (simp_all add: pow2_def roundEven_def Let_def)
  then show ?thesis by simp
qed

lemma half_third_100: "jdiv (Fin (4691249611844267 / 140737488355328)) (Fin 2) = Fin (4691249611844267 / 281474976710656)"
proof -
  have "fl ((4691249611844267 / 140737488355328) / 2) = Fin (4691249611844267 / 281474976710656)"
    by (rule fl_eval [of "4"]) (simp_all add: pow2_def roundEven_def Let_def)
  then show ?thesis by simp
qed

lemma corner_100: "jsub (Fin 50) (Fin (4691249611844267 / 281474976710656)) = Fin (2345624805922133 / 70368744177664)"
  unfolding jsub_def jneg.simps jadd.simps
  by (rule fl_eval [of "5"]) (simp_all add: pow2_def roundEven_def Let_def)

lemma limit_100: "jadd (Fin (2345624805922133 / 70368744177664)) (Fin (4691249611844267 / 140737488355328)) = Fin (2345624805922133 / 35184372088832)"
  unfolding jadd.simps
  by (rule fl_eval [of "6"]) (simp_all add: pow2_def roundEven_def Let_def)

lemma coordinate_1: "jadd (Fin (2345624805922133 / 70368744177664)) (Fin 10) = Fin (3049312247698773 / 70368744177664)"
  unfolding jadd.simps
  by (rule fl_eval [of "5"]) (simp_all add: pow2_def roundEven_def Let_def)

lemma coordinate_2: "jadd (Fin (3049312247698773 / 70368744177664)) (Fin 10) = Fin (3752999689475413 / 70368744177664)"
  unfolding jadd.simps
  by (rule fl_eval [of "5"]) (simp_all add: pow2_def roundEven_def Let_def)

lemma coordinate_3: "jadd (Fin (3752999689475413 / 70368744177664)) (Fin 10) = Fin (4456687131252053 / 70368744177664)"
  unfolding jadd.simps
  by (rule fl_eval [of "5"]) (simp_all add: pow2_def roundEven_def Let_def)

lemma coordinate_4: "jadd (Fin (4456687131252053 / 70368744177664)) (Fin 10) = Fin (5160374573028693 / 70368744177664)"
  unfolding jadd.simps
  by (rule fl_eval [of "6"]) (simp_all add: pow2_def roundEven_def Let_def)

lemma offset_row: "jmul (Fin (2345624805922133 / 70368744177664)) (Fin 100) = Fin (3665038759253333 / 1099511627776)"
  unfolding jmul.simps
  by (rule fl_eval [of "11"]) (simp_all add: pow2_def roundEven_def Let_def)

lemma offset_pixel: "jadd (Fin (3665038759253333 / 1099511627776)) (Fin (2345624805922133 / 70368744177664)) = Fin (7403378293691733 / 2199023255552)"
  unfolding jadd.simps
  by (rule fl_eval [of "11"]) (simp_all add: pow2_def roundEven_def Let_def)

lemma offset_bytes: "jmul (Fin (7403378293691733 / 2199023255552)) (Fin 4) = Fin (7403378293691733 / 549755813888)"
  unfolding jmul.simps
  by (rule fl_eval [of "13"]) (simp_all add: pow2_def roundEven_def Let_def)

lemma offset_green: "jadd (Fin (7403378293691733 / 549755813888)) (Fin 1) = Fin (7403928049505621 / 549755813888)"
  unfolding jadd.simps
  by (rule fl_eval [of "13"]) (simp_all add: pow2_def roundEven_def Let_def)

lemma offset_blue: "jadd (Fin (7403378293691733 / 549755813888)) (Fin 2) = Fin (7404477805319509 / 549755813888)"
  unfolding jadd.simps
  by (rule fl_eval [of "13"]) (simp_all add: pow2_def roundEven_def Let_def)

lemma centerRect_100:
  "centerRect 100 100
   = \<lparr>rect_x = Fin (2345624805922133 / 70368744177664), rect_y = Fin (2345624805922133 / 70368744177664),
       rect_width = Fin (4691249611844267 / 140737488355328), rect_height = Fin (4691249611844267 / 140737488355328)\<rparr>"
  by (simp add: centerRect_def Let_def half_100 third_100 half_third_100 corner_100
        del: jdiv.simps)

text \<open>The first sample reads the buffer at an offset that is not an integer.\<close>

lemma first_sample_100:
  assumes "length d = 40000"
  shows "sampleStep 100 d (Fin (2345624805922133 / 70368744177664)) (Fin (2345624805922133 / 70368744177664)) (Fin 0, Fin 0, Fin 0, 0) = (NaN, NaN, NaN, 1)"
proof -
  have r: "dataAt d (Fin (7403378293691733 / 549755813888)) = NaN"
    and g: "dataAt d (Fin (7403928049505621 / 549755813888)) = NaN"
    and b: "dataAt d (Fin (7404477805319509 / 549755813888)) = NaN"
    by (simp_all add: dataAt_def)
  have n: "jadd (Fin 0) NaN = NaN" by simp
  show ?thesis
    unfolding sampleStep_def
    by (simp add: Let_def offset_row offset_pixel offset_bytes offset_green offset_blue
          assms r g b n del: jadd.simps jmul.simps)
qed

text \<open>A row of the square, from its first coordinate.\<close>

lemma sampleRow_100:
  assumes "\<exists>n. sampleStep w d y (Fin (2345624805922133 / 70368744177664)) acc = (NaN, NaN, NaN, n)"
  shows "\<exists>n. sampleRow w d \<lparr>rect_x = Fin (2345624805922133 / 70368744177664), rect_y = Fin (2345624805922133 / 70368744177664),
       rect_width = Fin (4691249611844267 / 140737488355328), rect_height = Fin (4691249611844267 / 140737488355328)\<rparr>
               y (Fin (2345624805922133 / 70368744177664)) acc
             = Some (NaN, NaN, NaN, n)"
proof -
  let ?r = "\<lparr>rect_x = Fin (2345624805922133 / 70368744177664), rect_y = Fin (2345624805922133 / 70368744177664),
       rect_width = Fin (4691249611844267 / 140737488355328), rect_height = Fin (4691249611844267 / 140737488355328)\<rparr>"
  from assms obtain n0 where a0: "sampleStep w d y (Fin (2345624805922133 / 70368744177664)) acc = (NaN, NaN, NaN, n0)"
    by blast
  obtain n1 where a1: "sampleStep w d y (Fin (3049312247698773 / 70368744177664)) (NaN, NaN, NaN, n0) = (NaN, NaN, NaN, n1)"
    using sampleStep_NaN by blast
  obtain n2 where a2: "sampleStep w d y (Fin (3752999689475413 / 70368744177664)) (NaN, NaN, NaN, n1) = (NaN, NaN, NaN, n2)"
    using sampleStep_NaN by blast
  obtain n3 where a3: "sampleStep w d y (Fin (4456687131252053 / 70368744177664)) (NaN, NaN, NaN, n2) = (NaN, NaN, NaN, n3)"
    using sampleStep_NaN by blast
  have "sampleRow w d ?r y (Fin (2345624805922133 / 70368744177664)) acc
        = sampleRow w d ?r y (Fin (3049312247698773 / 70368744177664)) (NaN, NaN, NaN, n0)"
    by (subst sampleRow_step) (simp_all add: limit_100 coordinate_1 a0 del: jadd.simps)
  also have "\<dots> = sampleRow w d ?r y (Fin (3752999689475413 / 70368744177664)) (NaN, NaN, NaN, n1)"
    by (subst sampleRow_step) (simp_all add: limit_100 coordinate_2 a1 del: jadd.simps)
  also have "\<dots> = sampleRow w d ?r y (Fin (4456687131252053 / 70368744177664)) (NaN, NaN, NaN, n2)"
    by (subst sampleRow_step) (simp_all add: limit_100 coordinate_3 a2 del: jadd.simps)
  also have "\<dots> = sampleRow w d ?r y (Fin (5160374573028693 / 70368744177664)) (NaN, NaN, NaN, n3)"
    by (subst sampleRow_step) (simp_all add: limit_100 coordinate_4 a3 del: jadd.simps)
  also have "\<dots> = Some (NaN, NaN, NaN, n3)"
    by (subst sampleRow_stop) (simp_all add: limit_100 del: jadd.simps)
  finally show ?thesis by blast
qed

text \<open>The rows of the square.\<close>

lemma sampleRows_100:
  assumes "length d = 40000"
  shows "\<exists>n. sampleRows 100 d \<lparr>rect_x = Fin (2345624805922133 / 70368744177664), rect_y = Fin (2345624805922133 / 70368744177664),
       rect_width = Fin (4691249611844267 / 140737488355328), rect_height = Fin (4691249611844267 / 140737488355328)\<rparr>
               (Fin (2345624805922133 / 70368744177664)) (Fin 0, Fin 0, Fin 0, 0)
             = Some (NaN, NaN, NaN, n)"
proof -
  let ?r = "\<lparr>rect_x = Fin (2345624805922133 / 70368744177664), rect_y = Fin (2345624805922133 / 70368744177664),
       rect_width = Fin (4691249611844267 / 140737488355328), rect_height = Fin (4691249611844267 / 140737488355328)\<rparr>"
  have row: "\<exists>n'. sampleRow 100 d ?r y (Fin (2345624805922133 / 70368744177664)) (NaN, NaN, NaN, n) = Some (NaN, NaN, NaN, n')"
    for y n
    by (rule sampleRow_100) (rule sampleStep_NaN)
  obtain n0 where r0: "sampleRow 100 d ?r (Fin (2345624805922133 / 70368744177664)) (Fin (2345624805922133 / 70368744177664)) (Fin 0, Fin 0, Fin 0, 0)
                       = Some (NaN, NaN, NaN, n0)"
    using sampleRow_100 [of 100 d "Fin (2345624805922133 / 70368744177664)" "(Fin 0, Fin 0, Fin 0, 0)"]
      first_sample_100 [OF assms] by auto
  obtain n1 where r1: "sampleRow 100 d ?r (Fin (3049312247698773 / 70368744177664)) (Fin (2345624805922133 / 70368744177664)) (NaN, NaN, NaN, n0)
                       = Some (NaN, NaN, NaN, n1)"
    using row by blast
  obtain n2 where r2: "sampleRow 100 d ?r (Fin (3752999689475413 / 70368744177664)) (Fin (2345624805922133 / 70368744177664)) (NaN, NaN, NaN, n1)
                       = Some (NaN, NaN, NaN, n2)"
    using row by blast
  obtain n3 where r3: "sampleRow 100 d ?r (Fin (4456687131252053 / 70368744177664)) (Fin (2345624805922133 / 70368744177664)) (NaN, NaN, NaN, n2)
                       = Some (NaN, NaN, NaN, n3)"
    using row by blast
  have "sampleRows 100 d ?r (Fin (2345624805922133 / 70368744177664)) (Fin 0, Fin 0, Fin 0, 0)
        = sampleRows 100 d ?r (Fin (3049312247698773 / 70368744177664)) (NaN, NaN, NaN, n0)"
    by (subst sampleRows_step) (simp_all add: limit_100 coordinate_1 r0 del: jadd.simps)
  also have "\<dots> = sampleRows 100 d ?r (Fin (3752999689475413 / 70368744177664)) (NaN, NaN, NaN, n1)"
    by (subst sampleRows_step) (simp_all add: limit_100 coordinate_2 r1 del: jadd.simps)
  also have "\<dots> = sampleRows 100 d ?r (Fin (4456687131252053 / 70368744177664)) (NaN, NaN, NaN, n2)"
    by (subst sampleRows_step) (simp_all add: limit_100 coordinate_3 r2 del: jadd.simps)
  also have "\<dots> = sampleRows 100 d ?r (Fin (5160374573028693 / 70368744177664)) (NaN, NaN, NaN, n3)"
    by (subst sampleRows_step) (simp_all add: limit_100 coordinate_4 r3 del: jadd.simps)
  also have "\<dots> = Some (NaN, NaN, NaN, n3)"
    by (subst sampleRows_stop) (simp_all add: limit_100 del: jadd.simps)
  finally show ?thesis by blast
qed

lemma analyse_gray_100:
  "analyse (solidFrame 100 100 128 128 128 255)
   = Some \<lparr>colorVariance = NaN, brightnessAvg = NaN, isFaceDetected = False\<rparr>"
proof -
  have len: "length (img_data (solidFrame 100 100 128 128 128 255)) = 40000"
    by (simp add: length_solid)
  have w: "img_width (solidFrame 100 100 128 128 128 255) = 100"
    and h: "img_height (solidFrame 100 100 128 128 128 255) = 100"
    by (simp_all add: solidFrame_def)
  from sampleRows_100 [OF len] show ?thesis
    unfolding analyse_def w h centerRect_100 Let_def
    by (auto simp: verdict_NaN)
qed

subsection \<open>The signature\<close>

text \<open>The three weights, and the largest value of each product and sum.\<close>

lemma weight_red: "fl (3 / 10) = Fin (5404319552844595 / 18014398509481984)"
  by (rule fl_eval [of "- 2"]) (simp_all add: pow2_def roundEven_def Let_def)

lemma weight_green: "fl (6 / 10) = Fin (5404319552844595 / 9007199254740992)"
  by (rule fl_eval [of "- 1"]) (simp_all add: pow2_def roundEven_def Let_def)

lemma weight_blue: "fl (1 / 10) = Fin (3602879701896397 / 36028797018963968)"
  by (rule fl_eval [of "- 4"]) (simp_all add: pow2_def roundEven_def Let_def)

lemma top_red: "rnd (255 * (5404319552844595 / 18014398509481984)) = 153 / 2"
  by (rule rnd_value [of 6]) (simp_all add: pow2_def roundEven_def Let_def)

lemma top_green: "rnd (255 * (5404319552844595 / 9007199254740992)) = 153"
  by (rule rnd_value [of 7]) (simp_all add: pow2_def roundEven_def Let_def)

lemma top_blue: "rnd (255 * (3602879701896397 / 36028797018963968)) = 51 / 2"
  by (rule rnd_value [of 4]) (simp_all add: pow2_def roundEven_def Let_def)

lemma top_red_green: "rnd (153 / 2 + 153) = 459 / 2"
  by (rule rnd_value [of 7]) (simp_all add: pow2_def roundEven_def Let_def)

lemma top_sum: "rnd (459 / 2 + 51 / 2) = 255"
  by (rule rnd_value [of 7]) (simp_all add: pow2_def roundEven_def Let_def)

lemma top_quotient: "rnd (255 / 255) = 1"
  by (rule rnd_value [of 0]) (simp_all add: pow2_def roundEven_def Let_def)

text \<open>
  The weighted value of three bytes is a number between 0 and 1, within \<open>2 ^ - 49\<close> of
  the value of the formula over the reals.
\<close>

lemma luma_close:
  assumes "0 \<le> r" "r \<le> 255" "0 \<le> g" "g \<le> 255" "0 \<le> b" "b \<le> 255"
  shows "\<exists>v. luma (Fin r) (Fin g) (Fin b) = Fin v \<and> 0 \<le> v \<and> v \<le> 1
             \<and> \<bar>v - (r * (3 / 10) + g * (6 / 10) + b * (1 / 10)) / 255\<bar> \<le> 1 / 2 ^ 49"
proof -
  have big: "(153 / 2 :: real) < pow2 1024" "(153 :: real) < pow2 1024"
    "(51 / 2 :: real) < pow2 1024" "(459 / 2 :: real) < pow2 1024"
    "(255 :: real) < pow2 1024" "(1 :: real) < pow2 1024"
    by (simp_all add: pow2_def)
  have tiny: "pow2 (- 1022) \<le> 1" "pow2 (- 1022) \<le> 32" "pow2 (- 1022) \<le> 128"
    "pow2 (- 1022) \<le> 256"
    by (simp_all add: pow2_def)
  have u: "pow2 (- 53) = 1 / 9007199254740992" by (simp add: pow2_def)
  have "0 \<le> r * (5404319552844595 / 18014398509481984)"
    and "r * (5404319552844595 / 18014398509481984) \<le> 255 * (5404319552844595 / 18014398509481984)"
    using assms(1,2) by simp_all
  from fl_le [OF this top_red big(1)]
  obtain t1 where t1: "fl (r * (5404319552844595 / 18014398509481984)) = Fin t1"
    "0 \<le> t1" "t1 \<le> 153 / 2" by blast
  have "0 \<le> g * (5404319552844595 / 9007199254740992)"
    and "g * (5404319552844595 / 9007199254740992) \<le> 255 * (5404319552844595 / 9007199254740992)"
    using assms(3,4) by simp_all
  from fl_le [OF this top_green big(2)]
  obtain t2 where t2: "fl (g * (5404319552844595 / 9007199254740992)) = Fin t2"
    "0 \<le> t2" "t2 \<le> 153" by blast
  have "0 \<le> b * (3602879701896397 / 36028797018963968)"
    and "b * (3602879701896397 / 36028797018963968) \<le> 255 * (3602879701896397 / 36028797018963968)"
    using assms(5,6) by simp_all
  from fl_le [OF this top_blue big(3)]
  obtain t3 where t3: "fl (b * (3602879701896397 / 36028797018963968)) = Fin t3"
    "0 \<le> t3" "t3 \<le> 51 / 2" by blast
  have "0 \<le> t1 + t2" and "t1 + t2 \<le> 153 / 2 + 153"
    using t1(2,3) t2(2,3) by simp_all
  from fl_le [OF this top_red_green big(4)]
  obtain t12 where t12: "fl (t1 + t2) = Fin t12" "0 \<le> t12" "t12 \<le> 459 / 2" by blast
  have "0 \<le> t12 + t3" and "t12 + t3 \<le> 459 / 2 + 51 / 2"
    using t12(2,3) t3(2,3) by simp_all
  from fl_le [OF this top_sum big(5)]
  obtain s where s: "fl (t12 + t3) = Fin s" "0 \<le> s" "s \<le> 255" by blast
  have "0 \<le> s / 255" and "s / 255 \<le> 255 / 255"
    using s(2,3) by simp_all
  from fl_le [OF this top_quotient big(6)]
  obtain v where v: "fl (s / 255) = Fin v" "0 \<le> v" "v \<le> 1" by blast
  have "luma (Fin r) (Fin g) (Fin b)
        = jdiv (jadd (jadd (fl (r * (5404319552844595 / 18014398509481984)))
                           (fl (g * (5404319552844595 / 9007199254740992))))
                     (fl (b * (3602879701896397 / 36028797018963968))))
               (Fin 255)"
    by (simp only: luma_def weight_red weight_green weight_blue jmul.simps)
  also have "\<dots> = jdiv (jadd (fl (t1 + t2)) (Fin t3)) (Fin 255)"
    by (simp only: t1(1) t2(1) t3(1) jadd.simps)
  also have "\<dots> = jdiv (fl (t12 + t3)) (Fin 255)"
    by (simp only: t12(1) jadd.simps)
  also have "\<dots> = fl (s / 255)"
    unfolding s(1) by simp
  finally have l: "luma (Fin r) (Fin g) (Fin b) = Fin v" using v(1) by simp
  have e1: "\<bar>t1 - r * (5404319552844595 / 18014398509481984)\<bar> \<le> 128 / 9007199254740992"
    using rnd_error [of "r * (5404319552844595 / 18014398509481984)" 128] assms(1,2) tiny(3)
    unfolding fl_Fin_D [OF t1(1)] u by simp
  have e2: "\<bar>t2 - g * (5404319552844595 / 9007199254740992)\<bar> \<le> 256 / 9007199254740992"
    using rnd_error [of "g * (5404319552844595 / 9007199254740992)" 256] assms(3,4) tiny(4)
    unfolding fl_Fin_D [OF t2(1)] u by simp
  have e3: "\<bar>t3 - b * (3602879701896397 / 36028797018963968)\<bar> \<le> 32 / 9007199254740992"
    using rnd_error [of "b * (3602879701896397 / 36028797018963968)" 32] assms(5,6) tiny(2)
    unfolding fl_Fin_D [OF t3(1)] u by simp
  have e12: "\<bar>t12 - (t1 + t2)\<bar> \<le> 256 / 9007199254740992"
    using rnd_error [of "t1 + t2" 256] t1(2,3) t2(2,3) tiny(4)
    unfolding fl_Fin_D [OF t12(1)] u by simp
  have es: "\<bar>s - (t12 + t3)\<bar> \<le> 256 / 9007199254740992"
    using rnd_error [of "t12 + t3" 256] t12(2,3) t3(2,3) tiny(4)
    unfolding fl_Fin_D [OF s(1)] u by simp
  have ev: "\<bar>v - s / 255\<bar> \<le> 1 / 9007199254740992"
    using rnd_error [of "s / 255" 1] s(2,3) tiny(1)
    unfolding fl_Fin_D [OF v(1)] u by simp
  define x1 where "x1 = r * (5404319552844595 / 18014398509481984)"
  define x2 where "x2 = g * (5404319552844595 / 9007199254740992)"
  define x3 where "x3 = b * (3602879701896397 / 36028797018963968)"
  have a: "\<bar>s - (x1 + x2 + x3)\<bar> \<le> 928 / 9007199254740992"
    using e1 e2 e3 e12 es unfolding x1_def [symmetric] x2_def [symmetric] x3_def [symmetric]
    by linarith
  have w1: "\<bar>x1 - r * (3 / 10)\<bar> \<le> 255 / 72057594037927936"
    using assms(1,2) unfolding x1_def by (simp add: abs_le_iff)
  have w2: "\<bar>x2 - g * (6 / 10)\<bar> \<le> 255 / 36028797018963968"
    using assms(3,4) unfolding x2_def by (simp add: abs_le_iff)
  have w3: "\<bar>x3 - b * (1 / 10)\<bar> \<le> 255 / 144115188075855872"
    using assms(5,6) unfolding x3_def by (simp add: abs_le_iff)
  define y1 where "y1 = r * (3 / 10)"
  define y2 where "y2 = g * (6 / 10)"
  define y3 where "y3 = b * (1 / 10)"
  have c: "\<bar>s - (y1 + y2 + y3)\<bar> \<le> 1275 / 9007199254740992"
    using a w1 w2 w3 unfolding y1_def [symmetric] y2_def [symmetric] y3_def [symmetric]
    by linarith
  have "\<bar>s / 255 - (y1 + y2 + y3) / 255\<bar> = \<bar>s - (y1 + y2 + y3)\<bar> / 255"
    by (simp add: diff_divide_distrib [symmetric])
  also have "\<dots> \<le> (1275 / 9007199254740992) / 255"
    using c by (intro divide_right_mono) simp_all
  finally have d: "\<bar>s / 255 - (y1 + y2 + y3) / 255\<bar> \<le> 5 / 9007199254740992" by simp
  have "\<bar>v - (y1 + y2 + y3) / 255\<bar> \<le> 1 / 562949953421312"
    using d ev by linarith
  then have "\<bar>v - (r * (3 / 10) + g * (6 / 10) + b * (1 / 10)) / 255\<bar> \<le> 1 / 562949953421312"
    unfolding y1_def y2_def y3_def .
  then have "\<bar>v - (r * (3 / 10) + g * (6 / 10) + b * (1 / 10)) / 255\<bar> \<le> 1 / 2 ^ 49"
    by simp
  with l v(2,3) show ?thesis by blast
qed

lemma byte_bounds:
  fixes r :: "8 word"
  shows "0 \<le> real (unat r) \<and> real (unat r) \<le> 255"
proof -
  have "unat r < 2 ^ LENGTH(8)" by (rule unsigned_less)
  then have "unat r \<le> 255" by simp
  then have "real (unat r) \<le> real 255" by (simp only: of_nat_le_iff)
  then have "real (unat r) \<le> 255" by (simp only: of_nat_numeral)
  moreover have "0 \<le> real (unat r)" by (rule of_nat_0_le_iff)
  ultimately show ?thesis by (intro conjI)
qed

text \<open>A byte offset that is a number is a multiple of four.\<close>

lemma jadd_Fin: "jadd a b = Fin p \<Longrightarrow> \<exists>x y. a = Fin x \<and> b = Fin y \<and> fl (x + y) = Fin p"
  by (cases a; cases b) simp_all

lemma jmul_Fin: "jmul a b = Fin p \<Longrightarrow> \<exists>x y. a = Fin x \<and> b = Fin y \<and> fl (x * y) = Fin p"
  by (cases a; cases b) (simp_all split: if_splits)

lemma jfloor_Fin: "jfloor a = Fin p \<Longrightarrow> p \<in> \<int>"
  by (cases a) auto

lemma pixelIndex_multiple:
  assumes "pixelIndex img rect i = Fin p"
  shows "\<exists>m :: int. p = of_int m * 4"
proof -
  define x where
    "x = jfloor (jadd (rect_x rect) (jmul (rect_width rect) (jdiv (Fin (real (i mod 8))) (Fin 8))))"
  define y where
    "y = jfloor (jadd (rect_y rect)
                   (jmul (rect_height rect)
                      (jdiv (jfloor (jdiv (Fin (real i)) (Fin 8))) (Fin 16))))"
  from assms have "jmul (jadd (jmul y (Fin (real (img_width img)))) x) (Fin 4) = Fin p"
    by (simp only: pixelIndex_def Let_def x_def y_def)
  from jmul_Fin [OF this]
  obtain t2 where t2: "jadd (jmul y (Fin (real (img_width img)))) x = Fin t2"
    and p: "fl (t2 * 4) = Fin p" by auto
  from jadd_Fin [OF t2]
  obtain t1 xr where t1: "jmul y (Fin (real (img_width img))) = Fin t1"
    and xr: "x = Fin xr" and s: "fl (t1 + xr) = Fin t2" by auto
  from jmul_Fin [OF t1]
  obtain yr where yr: "y = Fin yr" and m: "fl (yr * real (img_width img)) = Fin t1" by auto
  from xr have xi: "xr \<in> \<int>" unfolding x_def by (rule jfloor_Fin)
  from yr have "yr \<in> \<int>" unfolding y_def by (rule jfloor_Fin)
  then have "yr * real (img_width img) \<in> \<int>" by simp
  from fl_integer [OF this m] have "t1 \<in> \<int>" .
  with xi have "t1 + xr \<in> \<int>" by simp
  from fl_integer [OF this s] have "t2 \<in> \<int>" .
  from fl_times4 [OF this p] show ?thesis .
qed

lemma dataAt_nat: "n < length d \<Longrightarrow> dataAt d (Fin (real n)) = Fin (real (unat (d ! n)))"
  by (simp add: dataAt_def)

text \<open>A sample whose offset lies in the buffer.\<close>

lemma signatureAt_in:
  assumes wf: "wellFormed img"
    and lo: "jge (pixelIndex img rect i) (Fin 0)"
    and hi: "jless (pixelIndex img rect i) (Fin (real (length (img_data img))))"
  shows "\<exists>k. pixelIndex img rect i = Fin (real (4 * k))
            \<and> 4 * k + 3 < length (img_data img)
            \<and> signatureAt img rect i
                = luma (Fin (real (unat (img_data img ! (4 * k)))))
                       (Fin (real (unat (img_data img ! (4 * k + 1)))))
                       (Fin (real (unat (img_data img ! (4 * k + 2)))))"
proof -
  define d where "d = img_data img"
  from lo hi obtain p where p: "pixelIndex img rect i = Fin p" "0 \<le> p" "p < real (length d)"
    unfolding d_def by (cases "pixelIndex img rect i") simp_all
  from pixelIndex_multiple [OF p(1)] obtain m :: int where m: "p = of_int m * 4" by blast
  with p(2) have m0: "0 \<le> m" by simp
  define k where "k = nat m"
  have pk: "p = real (4 * k)" using m m0 by (simp add: k_def)
  from wf have "length d = 4 * img_width img * img_height img"
    and small: "length d < 2 ^ 53"
    unfolding wellFormed_def d_def by blast+
  then have "length d = 4 * (img_width img * img_height img)"
    by (simp only: mult.assoc)
  then obtain n where len: "length d = 4 * n" by blast
  from p(3) have "real (4 * k) < real (length d)" unfolding pk .
  then have "4 * k < length d" by (simp only: of_nat_less_iff)
  with len have k3: "4 * k + 3 < length d" by arith
  have pi: "pixelIndex img rect i = Fin (real (4 * k))" using p(1) pk by simp
  have g: "jadd (Fin (real (4 * k))) (Fin 1) = Fin (real (4 * k + 1))"
  proof -
    have e: "real (4 * k) + 1 = real (4 * k + 1)" by simp
    have "4 * k + 1 \<le> 2 ^ 53" using k3 small by simp
    then show ?thesis unfolding jadd.simps e by (rule fl_nat)
  qed
  have b: "jadd (Fin (real (4 * k))) (Fin 2) = Fin (real (4 * k + 2))"
  proof -
    have e: "real (4 * k) + 2 = real (4 * k + 2)" by simp
    have "4 * k + 2 \<le> 2 ^ 53" using k3 small by simp
    then show ?thesis unfolding jadd.simps e by (rule fl_nat)
  qed
  have k0: "4 * k < length d" and k1: "4 * k + 1 < length d" and k2: "4 * k + 2 < length d"
    using k3 by simp_all
  have inb: "jge (Fin (real (4 * k))) (Fin 0) \<and> jless (Fin (real (4 * k))) (Fin (real (length d)))"
    using lo hi unfolding pi d_def by simp
  have "signatureAt img rect i
        = luma (dataAt d (Fin (real (4 * k))))
               (dataAt d (jadd (Fin (real (4 * k))) (Fin 1)))
               (dataAt d (jadd (Fin (real (4 * k))) (Fin 2)))"
    using inb unfolding signatureAt_def Let_def pi d_def by simp
  also have "\<dots> = luma (Fin (real (unat (d ! (4 * k)))))
                      (Fin (real (unat (d ! (4 * k + 1)))))
                      (Fin (real (unat (d ! (4 * k + 2)))))"
    by (simp only: g b dataAt_nat [OF k0] dataAt_nat [OF k1] dataAt_nat [OF k2])
  finally show ?thesis using pi k3 unfolding d_def by blast
qed

lemma signatureAt_close:
  assumes wf: "wellFormed img"
    and lo: "jge (pixelIndex img rect i) (Fin 0)"
    and hi: "jless (pixelIndex img rect i) (Fin (real (length (img_data img))))"
  shows "\<exists>k v. pixelIndex img rect i = Fin (real (4 * k))
            \<and> 4 * k + 3 < length (img_data img)
            \<and> signatureAt img rect i
                = luma (Fin (real (unat (img_data img ! (4 * k)))))
                       (Fin (real (unat (img_data img ! (4 * k + 1)))))
                       (Fin (real (unat (img_data img ! (4 * k + 2)))))
            \<and> signatureAt img rect i = Fin v
            \<and> \<bar>v - (real (unat (img_data img ! (4 * k))) * (3 / 10)
                      + real (unat (img_data img ! (4 * k + 1))) * (6 / 10)
                      + real (unat (img_data img ! (4 * k + 2))) * (1 / 10)) / 255\<bar>
                \<le> 1 / 2 ^ 49"
proof -
  from signatureAt_in [OF wf lo hi] obtain k where
    k: "pixelIndex img rect i = Fin (real (4 * k))" "4 * k + 3 < length (img_data img)"
    "signatureAt img rect i
     = luma (Fin (real (unat (img_data img ! (4 * k)))))
            (Fin (real (unat (img_data img ! (4 * k + 1)))))
            (Fin (real (unat (img_data img ! (4 * k + 2)))))"
    by blast
  from luma_close [of "real (unat (img_data img ! (4 * k)))"
                      "real (unat (img_data img ! (4 * k + 1)))"
                      "real (unat (img_data img ! (4 * k + 2)))"] byte_bounds
  obtain v where
    "luma (Fin (real (unat (img_data img ! (4 * k)))))
          (Fin (real (unat (img_data img ! (4 * k + 1)))))
          (Fin (real (unat (img_data img ! (4 * k + 2))))) = Fin v"
    "\<bar>v - (real (unat (img_data img ! (4 * k))) * (3 / 10)
            + real (unat (img_data img ! (4 * k + 1))) * (6 / 10)
            + real (unat (img_data img ! (4 * k + 2))) * (1 / 10)) / 255\<bar> \<le> 1 / 2 ^ 49"
    by blast
  with k show ?thesis by (intro exI [of _ k] exI [of _ v]) simp
qed

lemma signatureAt_out:
  "\<not> (jge (pixelIndex img rect i) (Fin 0)
       \<and> jless (pixelIndex img rect i) (Fin (real (length (img_data img)))))
   \<Longrightarrow> signatureAt img rect i = Fin 0"
  by (auto simp: signatureAt_def Let_def)

lemma signatureAt_range:
  assumes wf: "wellFormed img"
  shows "\<exists>v. signatureAt img rect i = Fin v \<and> 0 \<le> v \<and> v \<le> 1"
proof (cases "jge (pixelIndex img rect i) (Fin 0)
              \<and> jless (pixelIndex img rect i) (Fin (real (length (img_data img))))")
  case True
  with signatureAt_in [OF wf, of rect i] obtain k where
    "signatureAt img rect i
     = luma (Fin (real (unat (img_data img ! (4 * k)))))
            (Fin (real (unat (img_data img ! (4 * k + 1)))))
            (Fin (real (unat (img_data img ! (4 * k + 2)))))"
    by blast
  moreover have "\<exists>v. luma (Fin (real (unat (img_data img ! (4 * k)))))
                        (Fin (real (unat (img_data img ! (4 * k + 1)))))
                        (Fin (real (unat (img_data img ! (4 * k + 2))))) = Fin v
                   \<and> 0 \<le> v \<and> v \<le> 1"
    using luma_close [of "real (unat (img_data img ! (4 * k)))"
                         "real (unat (img_data img ! (4 * k + 1)))"
                         "real (unat (img_data img ! (4 * k + 2)))"] byte_bounds
    by blast
  ultimately show ?thesis by simp
next
  case False
  from signatureAt_out [OF this] show ?thesis by simp
qed

text \<open>The weighted value of a white pixel is exactly 1.\<close>

lemma luma_white: "luma (Fin 255) (Fin 255) (Fin 255) = Fin 1"
proof -
  have big: "\<bar>153 / 2 :: real\<bar> < pow2 1024" "\<bar>153 :: real\<bar> < pow2 1024"
    "\<bar>51 / 2 :: real\<bar> < pow2 1024" "\<bar>459 / 2 :: real\<bar> < pow2 1024"
    "\<bar>255 :: real\<bar> < pow2 1024" "\<bar>1 :: real\<bar> < pow2 1024"
    by (simp_all add: pow2_def)
  have r: "fl (255 * (5404319552844595 / 18014398509481984)) = Fin (153 / 2)"
    using fl_Fin [of "255 * (5404319552844595 / 18014398509481984)"] big(1)
    by (simp only: top_red)
  have g: "fl (255 * (5404319552844595 / 9007199254740992)) = Fin 153"
    using fl_Fin [of "255 * (5404319552844595 / 9007199254740992)"] big(2)
    by (simp only: top_green)
  have b: "fl (255 * (3602879701896397 / 36028797018963968)) = Fin (51 / 2)"
    using fl_Fin [of "255 * (3602879701896397 / 36028797018963968)"] big(3)
    by (simp only: top_blue)
  have rg: "fl (153 / 2 + 153) = Fin (459 / 2)"
    using fl_Fin [of "153 / 2 + 153"] big(4) by (simp only: top_red_green)
  have s: "fl (459 / 2 + 51 / 2) = Fin 255"
    using fl_Fin [of "459 / 2 + 51 / 2"] big(5) by (simp only: top_sum)
  have q: "fl (255 / 255) = Fin 1"
    using fl_Fin [of "255 / 255"] big(6) by (simp only: top_quotient)
  have "luma (Fin 255) (Fin 255) (Fin 255) = jdiv (Fin 255) (Fin 255)"
    by (simp only: luma_def weight_red weight_green weight_blue jmul.simps jadd.simps r g b rg s)
  also have "\<dots> = fl (255 / 255)" by simp
  finally show ?thesis by (simp only: q)
qed




subsection \<open>The 640 by 480 frame\<close>

text \<open>
  Where the coordinates of the square are integers the analysis reads pixels. On a
  frame of one colour each sample adds the three bytes of that colour to the totals.
\<close>

lemma nth_concat_replicate:
  "i < n * length xs \<Longrightarrow> concat (replicate n xs) ! i = xs ! (i mod length xs)"
proof (induction n arbitrary: i)
  case 0
  then show ?case by simp
next
  case (Suc n)
  show ?case
  proof (cases "i < length xs")
    case True
    then show ?thesis by (simp add: nth_append)
  next
    case False
    then have "i - length xs < n * length xs" using Suc.prems by simp
    from Suc.IH [OF this] False show ?thesis
      by (simp add: nth_append le_mod_geq)
  qed
qed

lemma solid_nth:
  "i < 4 * (w * h) \<Longrightarrow> img_data (solidFrame w h r g b a) ! i = [r, g, b, a] ! (i mod 4)"
  using nth_concat_replicate [of i "w * h" "[r, g, b, a]"]
  by (simp add: solidFrame_def mult.commute)

lemma solid_pixel:
  assumes "k < w * h"
  shows "img_data (solidFrame w h r g b a) ! (4 * k) = r"
    and "img_data (solidFrame w h r g b a) ! (4 * k + 1) = g"
    and "img_data (solidFrame w h r g b a) ! (4 * k + 2) = b"
proof -
  from assms have b: "4 * k < 4 * (w * h)" "4 * k + 1 < 4 * (w * h)" "4 * k + 2 < 4 * (w * h)"
    by simp_all
  have m: "(4 * k) mod 4 = 0" "(4 * k + 1) mod 4 = 1" "(4 * k + 2) mod 4 = 2"
    by presburger+
  show "img_data (solidFrame w h r g b a) ! (4 * k) = r"
    unfolding solid_nth [OF b(1)] m(1) by simp
  show "img_data (solidFrame w h r g b a) ! (4 * k + 1) = g"
    unfolding solid_nth [OF b(2)] m(2) by simp
  show "img_data (solidFrame w h r g b a) ! (4 * k + 2) = b"
    unfolding solid_nth [OF b(3)] m(3) by simp
qed

lemma jadd_nat: "a + b \<le> 2 ^ 53 \<Longrightarrow> jadd (Fin (real a)) (Fin (real b)) = Fin (real (a + b))"
  using fl_nat [of "a + b"] by simp

lemma jmul_nat: "a * b \<le> 2 ^ 53 \<Longrightarrow> jmul (Fin (real a)) (Fin (real b)) = Fin (real (a * b))"
  using fl_nat [of "a * b"] by simp

lemma unat_byte: "unat (r :: 8 word) \<le> 255"
proof -
  have "unat r < 2 ^ LENGTH(8)" by (rule unsigned_less)
  then show ?thesis by simp
qed

lemma sampleStep_solid:
  assumes d: "d = img_data (solidFrame w h r g b a)"
    and x: "x < w" and y: "y < h" and small: "4 * (w * h) \<le> 2 ^ 53"
    and tot: "tr + 255 \<le> 2 ^ 53" "tg + 255 \<le> 2 ^ 53" "tb + 255 \<le> 2 ^ 53"
  shows "sampleStep w d (Fin (real y)) (Fin (real x))
           (Fin (real tr), Fin (real tg), Fin (real tb), n)
         = (Fin (real (tr + unat r)), Fin (real (tg + unat g)), Fin (real (tb + unat b)), n + 1)"
proof -
  define k where "k = y * w + x"
  define K where "K = w * h"
  have "k < y * w + w" using x by (simp add: k_def)
  also have "\<dots> = Suc y * w" by simp
  also have "\<dots> \<le> h * w" using y by (intro mult_le_mono1) simp
  finally have kb: "k < w * h" by (simp add: mult.commute)
  then have kK: "k < K" by (simp only: K_def)
  from small have sK: "4 * K \<le> 2 ^ 53" by (simp only: K_def)
  have len: "length d = 4 * (w * h)" by (simp add: d length_solid)
  then have lK: "length d = 4 * K" by (simp only: K_def)
  have k4: "4 * k + 3 < length d" using kK lK by arith
  have ywk: "y * w \<le> k" by (simp add: k_def)
  have yw: "y * w \<le> 2 ^ 53" using ywk kK sK by arith
  have "k \<le> 2 ^ 53" using kK sK by arith
  then have ywx: "y * w + x \<le> 2 ^ 53" by (simp only: k_def)
  have "k * 4 \<le> 2 ^ 53" using kK sK by arith
  then have k44: "(y * w + x) * 4 \<le> 2 ^ 53" by (simp only: k_def)
  have k41: "4 * k + 1 \<le> 2 ^ 53" and k42: "4 * k + 2 \<le> 2 ^ 53"
    using kK sK by arith+
  have four: "Fin 4 = Fin (real 4)" and one: "Fin 1 = Fin (real 1)" and two: "Fin 2 = Fin (real 2)"
    by simp_all
  have i: "jmul (jadd (jmul (Fin (real y)) (Fin (real w))) (Fin (real x))) (Fin 4)
           = Fin (real (4 * k))"
    unfolding four jmul_nat [OF yw] jadd_nat [OF ywx] jmul_nat [OF k44]
    by (simp add: k_def mult.commute)
  have i1: "jadd (Fin (real (4 * k))) (Fin 1) = Fin (real (4 * k + 1))"
    unfolding one by (rule jadd_nat) (rule k41)
  have i2: "jadd (Fin (real (4 * k))) (Fin 2) = Fin (real (4 * k + 2))"
    unfolding two by (rule jadd_nat) (rule k42)
  have inb: "jge (Fin (real (4 * k))) (Fin 0)" "jless (Fin (real (4 * k))) (Fin (real (length d)))"
    using k4 by simp_all
  have k0: "4 * k < length d" and k1: "4 * k + 1 < length d" and k2: "4 * k + 2 < length d"
    using k4 by simp_all
  have rd: "dataAt d (Fin (real (4 * k))) = Fin (real (unat r))"
    and gd: "dataAt d (Fin (real (4 * k + 1))) = Fin (real (unat g))"
    and bd: "dataAt d (Fin (real (4 * k + 2))) = Fin (real (unat b))"
    unfolding dataAt_nat [OF k0] dataAt_nat [OF k1] dataAt_nat [OF k2]
    unfolding d solid_pixel [OF kb] by (rule refl)+
  have sr: "jadd (Fin (real tr)) (Fin (real (unat r))) = Fin (real (tr + unat r))"
    using tot(1) unat_byte [of r] by (intro jadd_nat) simp
  have sg: "jadd (Fin (real tg)) (Fin (real (unat g))) = Fin (real (tg + unat g))"
    using tot(2) unat_byte [of g] by (intro jadd_nat) simp
  have sb: "jadd (Fin (real tb)) (Fin (real (unat b))) = Fin (real (tb + unat b))"
    using tot(3) unat_byte [of b] by (intro jadd_nat) simp
  show ?thesis
    unfolding sampleStep_def prod.case Let_def i i1 i2
    by (simp only: inb rd gd bd sr sg sb simp_thms if_True)
qed

lemma sampleRow_solid:
  assumes d: "d = img_data (solidFrame w h r g b a)"
    and lim: "jadd (rect_x faceRect) (rect_width faceRect) = Fin (real l)"
    and l: "l \<le> w" and y: "y < h" and small: "4 * (w * h) \<le> 2 ^ 53"
  shows "x + 10 * k = l \<Longrightarrow> tr + 255 * k \<le> 2 ^ 53 \<Longrightarrow> tg + 255 * k \<le> 2 ^ 53
         \<Longrightarrow> tb + 255 * k \<le> 2 ^ 53 \<Longrightarrow>
         sampleRow w d faceRect (Fin (real y)) (Fin (real x))
           (Fin (real tr), Fin (real tg), Fin (real tb), n)
         = Some (Fin (real (tr + k * unat r)), Fin (real (tg + k * unat g)),
                 Fin (real (tb + k * unat b)), n + k)"
proof (induction k arbitrary: x tr tg tb n)
  case 0
  then have "\<not> jless (Fin (real x)) (jadd (rect_x faceRect) (rect_width faceRect))"
    unfolding lim by simp
  from sampleRow_stop [OF this] show ?case by simp
next
  case (Suc k)
  from Suc.prems(1) have xl: "x < l" and nx: "(x + 10) + 10 * k = l" by simp_all
  from xl l have xw: "x < w" by simp
  from xl have c: "jless (Fin (real x)) (jadd (rect_x faceRect) (rect_width faceRect))"
    unfolding lim by simp
  have t: "tr + 255 \<le> 2 ^ 53" "tg + 255 \<le> 2 ^ 53" "tb + 255 \<le> 2 ^ 53"
    using Suc.prems(2-4) by simp_all
  have t': "(tr + unat r) + 255 * k \<le> 2 ^ 53" "(tg + unat g) + 255 * k \<le> 2 ^ 53"
    "(tb + unat b) + 255 * k \<le> 2 ^ 53"
    using Suc.prems(2-4) unat_byte [of r] unat_byte [of g] unat_byte [of b] by simp_all
  have "w * 1 \<le> w * h" using y by (intro mult_le_mono2) simp
  then have "w \<le> w * h" by (simp only: mult_1_right)
  with xw have "x < w * h" by (rule less_le_trans)
  moreover have "x + 10 \<le> 2 ^ 53" if "x < K" "4 * K \<le> 2 ^ 53" for K :: nat
    using that by simp
  ultimately have small': "x + 10 \<le> 2 ^ 53" using small by blast
  have ten: "Fin 10 = Fin (real 10)" by simp
  have nxt: "jadd (Fin (real x)) (Fin 10) = Fin (real (x + 10))"
    unfolding ten by (rule jadd_nat) (rule small')
  show ?case
    unfolding sampleRow_step [OF c] nxt sampleStep_solid [OF d xw y small t]
      Suc.IH [OF nx t']
    by (simp add: algebra_simps)
qed

lemma sampleRows_solid:
  assumes d: "d = img_data (solidFrame w h r g b a)"
    and x0: "rect_x faceRect = Fin (real x0)"
    and limx: "jadd (rect_x faceRect) (rect_width faceRect) = Fin (real l)"
    and kx: "x0 + 10 * kx = l" and l: "l \<le> w"
    and limy: "jadd (rect_y faceRect) (rect_height faceRect) = Fin (real ly)"
    and ly: "ly \<le> h" and small: "4 * (w * h) \<le> 2 ^ 53" and tall: "h + 10 \<le> 2 ^ 53"
  shows "y + 10 * k = ly \<Longrightarrow> tr + 255 * (kx * k) \<le> 2 ^ 53 \<Longrightarrow> tg + 255 * (kx * k) \<le> 2 ^ 53
         \<Longrightarrow> tb + 255 * (kx * k) \<le> 2 ^ 53 \<Longrightarrow>
         sampleRows w d faceRect (Fin (real y)) (Fin (real tr), Fin (real tg), Fin (real tb), n)
         = Some (Fin (real (tr + kx * k * unat r)), Fin (real (tg + kx * k * unat g)),
                 Fin (real (tb + kx * k * unat b)), n + kx * k)"
proof (induction k arbitrary: y tr tg tb n)
  case 0
  then have "\<not> jless (Fin (real y)) (jadd (rect_y faceRect) (rect_height faceRect))"
    unfolding limy by simp
  from sampleRows_stop [OF this] show ?case by simp
next
  case (Suc k)
  from Suc.prems(1) have yl: "y < ly" and ny: "(y + 10) + 10 * k = ly" by simp_all
  from yl ly have yh: "y < h" by simp
  from yl have c: "jless (Fin (real y)) (jadd (rect_y faceRect) (rect_height faceRect))"
    unfolding limy by simp
  have e: "255 * (kx * Suc k) = 255 * kx + 255 * (kx * k)" by (simp add: algebra_simps)
  have t: "tr + 255 * kx \<le> 2 ^ 53" "tg + 255 * kx \<le> 2 ^ 53" "tb + 255 * kx \<le> 2 ^ 53"
    using Suc.prems(2-4) unfolding e by arith+
  have u: "kx * unat r \<le> kx * 255" "kx * unat g \<le> kx * 255" "kx * unat b \<le> kx * 255"
    by (rule mult_le_mono2, rule unat_byte)+
  have e': "kx * 255 = 255 * kx" by simp
  have t': "(tr + kx * unat r) + 255 * (kx * k) \<le> 2 ^ 53"
    "(tg + kx * unat g) + 255 * (kx * k) \<le> 2 ^ 53"
    "(tb + kx * unat b) + 255 * (kx * k) \<le> 2 ^ 53"
    using Suc.prems(2-4) u unfolding e e' by arith+
  have small': "y + 10 \<le> 2 ^ 53" using yh tall by simp
  have ten: "Fin 10 = Fin (real 10)" by simp
  have nxt: "jadd (Fin (real y)) (Fin 10) = Fin (real (y + 10))"
    unfolding ten by (rule jadd_nat) (rule small')
  show ?case
    unfolding sampleRows_step [OF c] x0 sampleRow_solid [OF d limx l yh small kx t] nxt
      bind.bind_lunit Suc.IH [OF ny t']
    by (simp add: algebra_simps)
qed

lemma centerRect_640_480:
  "centerRect 640 480
   = \<lparr>rect_x = Fin 240, rect_y = Fin 160, rect_width = Fin 160, rect_height = Fin 160\<rparr>"
proof -
  have i: "fl 320 = Fin 320" "fl 240 = Fin 240" "fl 160 = Fin 160" "fl 80 = Fin 80"
    using fl_int [of 320] fl_int [of 240] fl_int [of 160] fl_int [of 80] by simp_all
  show ?thesis by (simp add: centerRect_def Let_def jsub_def i)
qed

lemma sampleRows_640_480:
  "sampleRows 640 (img_data (solidFrame 640 480 128 128 128 255))
     \<lparr>rect_x = Fin 240, rect_y = Fin 160, rect_width = Fin 160, rect_height = Fin 160\<rparr>
     (Fin 160) (Fin 0, Fin 0, Fin 0, 0)
   = Some (Fin 32768, Fin 32768, Fin 32768, 256)"
proof -
  have i: "fl 400 = Fin 400" "fl 320 = Fin 320"
    using fl_int [of 400] fl_int [of 320] by simp_all
  show ?thesis
    using sampleRows_solid
            [where d = "img_data (solidFrame 640 480 128 128 128 255)"
               and w = 640 and h = 480 and r = 128 and g = 128 and b = 128 and a = 255
               and faceRect = "\<lparr>rect_x = Fin 240, rect_y = Fin 160, rect_width = Fin 160,
                                rect_height = Fin 160\<rparr>"
               and ?x0.0 = 240 and l = 400 and kx = 16 and ly = 320 and y = 160 and k = 16
               and tr = 0 and tg = 0 and tb = 0 and n = 0]
    by (simp add: i)
qed

text \<open>
  On the solid grey 640 by 480 frame of the specification's scenario the function body
  does what claim C3 says: variance 0, brightness 128, a face reported.
\<close>

lemma analyse_gray_640_480:
  "analyse (solidFrame 640 480 128 128 128 255)
   = Some \<lparr>colorVariance = Fin 0, brightnessAvg = Fin 128, isFaceDetected = True\<rparr>"
proof -
  have w: "img_width (solidFrame 640 480 128 128 128 255) = 640"
    and h: "img_height (solidFrame 640 480 128 128 128 255) = 480"
    by (simp_all add: solidFrame_def)
  have i: "fl 128 = Fin 128" "fl 256 = Fin 256" "fl 384 = Fin 384"
    using fl_int [of 128] fl_int [of 256] fl_int [of 384] by simp_all
  have v: "verdict (Fin 32768, Fin 32768, Fin 32768, 256)
           = \<lparr>colorVariance = Fin 0, brightnessAvg = Fin 128, isFaceDetected = True\<rparr>"
    by (simp add: verdict_def average_def jsub_def Let_def i)
  show ?thesis
    unfolding analyse_def w h centerRect_640_480 Let_def
    by (simp add: sampleRows_640_480 v)
qed

lemma detectFaces_gray_640_480:
  "map_option faceDetected
     (detectFaces \<lparr>detecting = True, elementsMounted = True,
                    grabbed = Grabbed (solidFrame 640 480 128 128 128 255)\<rparr> st)
   = Some True"
  by (simp add: detectFaces_def analyse_gray_640_480 Let_def)

text \<open>
  The signature of that frame: every component is the double nearest to \<open>128 / 255\<close>.
  The sum of the three weighted values is rounded to the double below 128; the
  division by 255 rounds it back.
\<close>

lemma gray_red: "jmul (Fin 128) (Fin (5404319552844595 / 18014398509481984)) = Fin (5404319552844595 / 140737488355328)"
  unfolding jmul.simps
  by (rule fl_eval [of "5"]) (simp_all add: pow2_def roundEven_def Let_def)

lemma gray_green: "jmul (Fin 128) (Fin (5404319552844595 / 9007199254740992)) = Fin (5404319552844595 / 70368744177664)"
  unfolding jmul.simps
  by (rule fl_eval [of "6"]) (simp_all add: pow2_def roundEven_def Let_def)

lemma gray_blue: "jmul (Fin 128) (Fin (3602879701896397 / 36028797018963968)) = Fin (3602879701896397 / 281474976710656)"
  unfolding jmul.simps
  by (rule fl_eval [of "3"]) (simp_all add: pow2_def roundEven_def Let_def)

lemma gray_red_green: "jadd (Fin (5404319552844595 / 140737488355328)) (Fin (5404319552844595 / 70368744177664)) = Fin (2026619832316723 / 17592186044416)"
  unfolding jadd.simps
  by (rule fl_eval [of "6"]) (simp_all add: pow2_def roundEven_def Let_def)

lemma gray_sum: "jadd (Fin (2026619832316723 / 17592186044416)) (Fin (3602879701896397 / 281474976710656)) = Fin (9007199254740991 / 70368744177664)"
  unfolding jadd.simps
  by (rule fl_eval [of "6"]) (simp_all add: pow2_def roundEven_def Let_def)

lemma gray_quotient: "jdiv (Fin (9007199254740991 / 70368744177664)) (Fin 255) = Fin (282578800148737 / 562949953421312)"
proof -
  have "fl ((9007199254740991 / 70368744177664) / 255) = Fin (282578800148737 / 562949953421312)"
    by (rule fl_eval [of "- 1"]) (simp_all add: pow2_def roundEven_def Let_def)
  then show ?thesis by simp
qed

lemma luma_gray: "luma (Fin 128) (Fin 128) (Fin 128) = fl (128 / 255)"
proof -
  have q: "fl (128 / 255) = Fin (282578800148737 / 562949953421312)"
    by (rule fl_eval [of "- 1"]) (simp_all add: pow2_def roundEven_def Let_def)
  show ?thesis
    by (simp only: luma_def weight_red weight_green weight_blue gray_red gray_green gray_blue
          gray_red_green gray_sum gray_quotient q)
qed

lemma pixelIndex_640_480:
  assumes "i < 128"
  shows "pixelIndex (solidFrame 640 480 r g b a)
           \<lparr>rect_x = Fin 240, rect_y = Fin 160, rect_width = Fin 160, rect_height = Fin 160\<rparr> i
         = Fin (real (4 * ((160 + 10 * (i div 8)) * 640 + (240 + 20 * (i mod 8)))))"
proof -
  define q where "q = i div 8"
  define m where "m = i mod 8"
  have qb: "q < 16" using assms by (simp add: q_def less_mult_imp_div_less)
  have mb: "m < 8" by (simp add: m_def)
  have w: "img_width (solidFrame 640 480 r g b a) = 640" by (simp add: solidFrame_def)
  have n8: "Fin 8 = Fin (real 8)" and n16: "Fin 16 = Fin (real 16)"
    and n160: "Fin 160 = Fin (real 160)" and n240: "Fin 240 = Fin (real 240)"
    and n4: "Fin 4 = Fin (real 4)"
    by simp_all
  have a: "jdiv (Fin (real i)) (Fin 8) = Fin (real i / 8)"
  proof -
    have "fl (real i / 8) = Fin (real i / 8)"
      by (rule fl_exact [of _ "int i" "- 3"]) (use assms in \<open>simp_all add: pow2_def\<close>)
    then show ?thesis by simp
  qed
  have b: "jfloor (Fin (real i / 8)) = Fin (real q)"
  proof -
    have "\<lfloor>real i / real 8\<rfloor> = int (i div 8)" by (rule floor_divide_of_nat_eq)
    then show ?thesis by (simp add: q_def)
  qed
  have c: "jdiv (Fin (real q)) (Fin 16) = Fin (real q / 16)"
  proof -
    have "fl (real q / 16) = Fin (real q / 16)"
      by (rule fl_exact [of _ "int q" "- 4"]) (use qb in \<open>simp_all add: pow2_def\<close>)
    then show ?thesis by simp
  qed
  have d: "jdiv (Fin (real m)) (Fin 8) = Fin (real m / 8)"
  proof -
    have "fl (real m / 8) = Fin (real m / 8)"
      by (rule fl_exact [of _ "int m" "- 3"]) (use mb in \<open>simp_all add: pow2_def\<close>)
    then show ?thesis by simp
  qed
  have e: "jmul (Fin 160) (Fin (real m / 8)) = Fin (real (20 * m))"
  proof -
    have "160 * (real m / 8) = real (20 * m)" by simp
    moreover have "fl (real (20 * m)) = Fin (real (20 * m))"
      by (rule fl_nat) (use mb in simp)
    ultimately show ?thesis by (simp only: jmul.simps)
  qed
  have f: "jmul (Fin 160) (Fin (real q / 16)) = Fin (real (10 * q))"
  proof -
    have "160 * (real q / 16) = real (10 * q)" by simp
    moreover have "fl (real (10 * q)) = Fin (real (10 * q))"
      by (rule fl_nat) (use qb in simp)
    ultimately show ?thesis by (simp only: jmul.simps)
  qed
  have x: "jadd (Fin 240) (Fin (real (20 * m))) = Fin (real (240 + 20 * m))"
    unfolding n240 by (rule jadd_nat) (use mb in simp)
  have y: "jadd (Fin 160) (Fin (real (10 * q))) = Fin (real (160 + 10 * q))"
    unfolding n160 by (rule jadd_nat) (use qb in simp)
  have fx: "jfloor (Fin (real (240 + 20 * m))) = Fin (real (240 + 20 * m))"
    and fy: "jfloor (Fin (real (160 + 10 * q))) = Fin (real (160 + 10 * q))"
    by simp_all
  have yw: "jmul (Fin (real (160 + 10 * q))) (Fin (real 640)) = Fin (real ((160 + 10 * q) * 640))"
    by (rule jmul_nat) (use qb in simp)
  have p: "jadd (Fin (real ((160 + 10 * q) * 640))) (Fin (real (240 + 20 * m)))
           = Fin (real ((160 + 10 * q) * 640 + (240 + 20 * m)))"
    by (rule jadd_nat) (use qb mb in simp)
  have p4: "jmul (Fin (real ((160 + 10 * q) * 640 + (240 + 20 * m)))) (Fin 4)
            = Fin (real (4 * ((160 + 10 * q) * 640 + (240 + 20 * m))))"
    unfolding n4
  proof -
    have "((160 + 10 * q) * 640 + (240 + 20 * m)) * 4 \<le> 2 ^ 53" using qb mb by simp
    from jmul_nat [OF this]
    show "jmul (Fin (real ((160 + 10 * q) * 640 + (240 + 20 * m)))) (Fin (real 4))
          = Fin (real (4 * ((160 + 10 * q) * 640 + (240 + 20 * m))))"
      by (simp only: mult.commute)
  qed
  show ?thesis
    unfolding pixelIndex_def Let_def w faceRect.simps q_def [symmetric] m_def [symmetric]
    by (simp only: a b c d e f x y fx fy yw p p4)
qed

lemma signature_gray_640_480:
  "generateFaceSignature (solidFrame 640 480 128 128 128 255) (centerRect 640 480)
   = replicate 128 (fl (128 / 255))"
proof -
  let ?img = "solidFrame 640 480 128 128 128 255"
  let ?rect = "\<lparr>rect_x = Fin 240, rect_y = Fin 160, rect_width = Fin 160, rect_height = Fin 160\<rparr>"
  have len: "length (img_data ?img) = 4 * (640 * 480)" by (rule length_solid)
  have wf: "wellFormed ?img"
    unfolding wellFormed_def len by (simp add: solidFrame_def)
  have each: "signatureAt ?img ?rect i = fl (128 / 255)" if i: "i < 128" for i
  proof -
    have qb: "i div 8 < 16" using i by (simp add: less_mult_imp_div_less)
    have mb: "i mod 8 < 8" by simp
    have k: "4 * ((160 + 10 * (i div 8)) * 640 + (240 + 20 * (i mod 8))) < 4 * (640 * 480)"
      using qb mb by simp
    have lo: "jge (pixelIndex ?img ?rect i) (Fin 0)"
      unfolding pixelIndex_640_480 [OF i] by simp
    have hi: "jless (pixelIndex ?img ?rect i) (Fin (real (length (img_data ?img))))"
      unfolding pixelIndex_640_480 [OF i] len jless.simps of_nat_less_iff by (rule k)
    from signatureAt_in [OF wf lo hi] obtain k' where
      b: "4 * k' + 3 < length (img_data ?img)"
      and v: "signatureAt ?img ?rect i
              = luma (Fin (real (unat (img_data ?img ! (4 * k')))))
                     (Fin (real (unat (img_data ?img ! (4 * k' + 1)))))
                     (Fin (real (unat (img_data ?img ! (4 * k' + 2)))))"
      by blast
    from b have "k' < 640 * 480" unfolding len by simp
    from solid_pixel [OF this] v have "signatureAt ?img ?rect i = luma (Fin 128) (Fin 128) (Fin 128)"
      by simp
    then show ?thesis by (simp only: luma_gray)
  qed
  have "map (signatureAt ?img ?rect) [0..<128] = map (\<lambda>i. fl (128 / 255)) [0..<128]"
    by (rule map_cong) (simp_all add: each)
  then show ?thesis
    unfolding generateFaceSignature_def centerRect_640_480 by (simp add: map_replicate_const)
qed

text \<open>
  Claim C3, evaluated where the code departs from it. On a solid grey 100 by 100 frame
  (R = G = B = 128 at every pixel) the centred square starts at the double nearest to
  \<open>100 / 3\<close>, the analysis reads the buffer at offsets that are not integers, every read
  is \<open>undefined\<close>, the means are \<open>NaN\<close> and no face is reported: a call of
  \<open>detectFaces\<close> that gets past its guard clears the flag. The signature generator
  rounds its coordinates down; the analysis does not. A call whose closure saw
  \<open>detecting\<close> as false analyses nothing and leaves the state as it was. On the 640 by
  480 frame the coordinates are integers and the function body does what the claim says
  (\<open>analyse_gray_640_480\<close>, \<open>signature_gray_640_480\<close>).
\<close>
theorem gray_frame_100_not_detected:
  "wellFormed (solidFrame 100 100 128 128 128 255)
   \<and> analyse (solidFrame 100 100 128 128 128 255)
       = Some \<lparr>colorVariance = NaN, brightnessAvg = NaN, isFaceDetected = False\<rparr>
   \<and> map_option faceDetected
       (detectFaces \<lparr>detecting = True, elementsMounted = True,
                      grabbed = Grabbed (solidFrame 100 100 128 128 128 255)\<rparr>
          initialFaceState)
       = Some False
   \<and> detectFaces \<lparr>detecting = True, elementsMounted = True,
                    grabbed = Grabbed (solidFrame 100 100 128 128 128 255)\<rparr>
        (initialFaceState\<lparr>faceDetected := True\<rparr>)
       = Some initialFaceState
   \<and> detectFaces \<lparr>detecting = False, elementsMounted = elems, grabbed = current\<rparr> st = Some st"
proof -
  have "wellFormed (solidFrame 100 100 128 128 128 255)"
    by (simp add: wellFormed_def length_solid) (simp add: solidFrame_def)
  then show ?thesis
    by (simp add: detectFaces_def analyse_gray_100 initialFaceState_def)
qed

theorem gray_frame_100_not_detected_witness:
  "analyse (solidFrame 100 100 128 128 128 255)
     = Some \<lparr>colorVariance = NaN, brightnessAvg = NaN, isFaceDetected = False\<rparr>
   \<and> detectFaces \<lparr>detecting = True, elementsMounted = True,
                    grabbed = Grabbed (solidFrame 100 100 128 128 128 255)\<rparr>
        (initialFaceState\<lparr>faceDetected := True\<rparr>)
       = Some initialFaceState
   \<and> detectFaces \<lparr>detecting = False, elementsMounted = True,
                    grabbed = Grabbed (solidFrame 100 100 128 128 128 255)\<rparr>
        (initialFaceState\<lparr>faceDetected := True\<rparr>)
       = Some (initialFaceState\<lparr>faceDetected := True\<rparr>)"
  using gray_frame_100_not_detected
          [of True "Grabbed (solidFrame 100 100 128 128 128 255)"
              "initialFaceState\<lparr>faceDetected := True\<rparr>"]
  by simp

end
